(* ===== verification/Float32.thy ===== *)
theory Float32
  imports Complex_Main "HOL-Library.Log_Nat"
begin

text \<open>
  The C type \<open>float\<close>, as far as the daemon uses it: non-negative IEEE binary32 values, rounded to
  nearest with ties to even. A value is a rational number; \<open>rnd32\<close> rounds a rational to 24 bits
  of precision. The magnitudes that occur lie between \<open>2 ^ -64\<close> and \<open>2 ^ 71\<close>, far inside the
  exponent range of the format, so that neither overflow nor a subnormal result can arise. The laws
  of rounding that the clients use are a locale, with \<open>rnd32\<close> as its interpretation.
\<close>

section \<open>Rounding\<close>

text \<open>Round to the nearest integer, ties to even.\<close>

definition rne :: "rat \<Rightarrow> int" where
  "rne x = (let f = \<lfloor>x\<rfloor>; d = x - of_int f
            in if d < 1 / 2 \<or> (d = 1 / 2 \<and> even f) then f else f + 1)"

text \<open>The binary exponent of a positive rational.\<close>

definition ilog2 :: "rat \<Rightarrow> int" where
  "ilog2 x = (if 1 \<le> x then int (floorlog 2 (nat \<lfloor>x\<rfloor>)) - 1
              else - int (floorlog 2 (nat (\<lceil>1 / x\<rceil> - 1))))"

definition rnd32 :: "rat \<Rightarrow> rat" where
  "rnd32 x = (if x \<le> 0 then 0
              else let u = 2 powi (ilog2 x - 23) in of_int (rne (x / u)) * u)"

lemma rne_bounds: "of_int (rne x) \<le> x + 1 / 2" "x - 1 / 2 \<le> of_int (rne x)"
  unfolding rne_def Let_def by (auto; linarith)+

lemma rne_of_int [simp]: "rne (of_int i) = i"
  by (simp add: rne_def)

lemma rne_mono: "x \<le> y \<Longrightarrow> rne x \<le> rne y"
proof -
  assume le: "x \<le> y"
  then have "\<lfloor>x\<rfloor> \<le> \<lfloor>y\<rfloor>" by (rule floor_mono)
  then consider "\<lfloor>x\<rfloor> = \<lfloor>y\<rfloor>" | "\<lfloor>x\<rfloor> + 1 \<le> \<lfloor>y\<rfloor>" by linarith
  then show ?thesis
  proof cases
    case 1
    with le show ?thesis by (auto simp: rne_def Let_def)
  next
    case 2
    have "rne x \<le> \<lfloor>x\<rfloor> + 1" and "\<lfloor>y\<rfloor> \<le> rne y" by (simp_all add: rne_def Let_def)
    with 2 show ?thesis by linarith
  qed
qed

lemma ilog2_bounds:
  assumes "0 < x"
  shows "2 powi ilog2 x \<le> x" and "x < 2 powi (ilog2 x + 1)"
proof -
  have "2 powi ilog2 x \<le> x \<and> x < 2 powi (ilog2 x + 1)"
  proof (cases "1 \<le> x")
    case True
    define n where "n = nat \<lfloor>x\<rfloor>"
    define k where "k = floorlog 2 n"
    have n: "0 < n" "of_nat n \<le> x" "x < of_nat n + 1"
      using True by (auto simp: n_def) (linarith)+
    have b: "2 ^ (k - 1) \<le> n" "n < 2 ^ k" using floorlog_bounds [of n 2] n(1) by (auto simp: k_def)
    have k: "0 < k" using b n(1) by (cases k) auto
    have e: "ilog2 x = int (k - 1)" using True k by (simp add: ilog2_def n_def k_def)
    have "(2::rat) powi ilog2 x = of_nat (2 ^ (k - 1))" by (simp add: e power_int_def)
    moreover have "(2::rat) powi (ilog2 x + 1) = of_nat (2 ^ k)" using k by (simp add: e power_int_def)
    moreover have "(of_nat (2 ^ (k - 1)) :: rat) \<le> of_nat n" using b(1) of_nat_le_iff by blast
    moreover have "of_nat n + 1 \<le> (of_nat (2 ^ k) :: rat)"
      using b(2) of_nat_le_iff [of "Suc n" "2 ^ k", where ?'a = rat] by (simp add: add.commute)
    ultimately show ?thesis using n(2,3) by linarith
  next
    case False
    define n where "n = nat (\<lceil>1 / x\<rceil> - 1)"
    define k where "k = floorlog 2 n"
    have "1 < 1 / x" using assms False by (simp add: field_simps)
    then have "1 < \<lceil>1 / x\<rceil>" by (simp add: less_ceiling_iff)
    then have n: "0 < n" "of_nat n < 1 / x" "1 / x \<le> of_nat n + 1"
      by (auto simp: n_def) (linarith)+
    have b: "2 ^ (k - 1) \<le> n" "n < 2 ^ k" using floorlog_bounds [of n 2] n(1) by (auto simp: k_def)
    have k: "0 < k" using b n(1) by (cases k) auto
    have e: "ilog2 x = - int k" using False by (simp add: ilog2_def n_def k_def)
    have p1: "(2::rat) powi ilog2 x = 1 / of_nat (2 ^ k)"
      by (simp add: e power_int_minus divide_inverse)
    have "ilog2 x + 1 = - int (k - 1)" using k by (simp add: e)
    then have p2: "(2::rat) powi (ilog2 x + 1) = 1 / of_nat (2 ^ (k - 1))"
      by (simp add: power_int_minus divide_inverse)
    have "(of_nat (2 ^ (k - 1)) :: rat) \<le> of_nat n" using b(1) of_nat_le_iff by blast
    then have "of_nat (2 ^ (k - 1)) < 1 / x" using n(2) by linarith
    moreover have "of_nat n + 1 \<le> (of_nat (2 ^ k) :: rat)"
      using b(2) of_nat_le_iff [of "Suc n" "2 ^ k", where ?'a = rat] by (simp add: add.commute)
    then have "1 / x \<le> of_nat (2 ^ k)" using n(3) by linarith
    ultimately show ?thesis unfolding p1 p2 using assms by (simp add: field_simps)
  qed
  then show "2 powi ilog2 x \<le> x" and "x < 2 powi (ilog2 x + 1)" by auto
qed

text \<open>The exponent is the only one with these bounds.\<close>

lemma ilog2_unique:
  assumes "2 powi e \<le> x" and "x < 2 powi (e + 1)"
  shows "ilog2 x = e"
proof -
  have pos: "0 < x" using assms(1) by (rule less_le_trans [rotated]) simp
  have less: "a < b + 1" if "(2::rat) powi a < 2 powi (b + 1)" for a b :: int
    using that power_int_increasing [of "b + 1" a "2::rat"] by force
  have "ilog2 x < e + 1"
    using less [of "ilog2 x" e] ilog2_bounds(1) [OF pos] assms(2) by (meson le_less_trans)
  moreover have "e < ilog2 x + 1"
    using less [of e "ilog2 x"] ilog2_bounds(2) [OF pos] assms(1) by (meson le_less_trans)
  ultimately show ?thesis by simp
qed

section \<open>The laws of rounding\<close>

lemma ulp_split: "(2::rat) powi e = 8388608 * 2 powi (e - 23)"
  using power_int_add [of "2::rat" 23 "e - 23"] by simp

lemma ulp_double: "(2::rat) powi (e + 1) = 2 * 2 powi e"
  by (simp add: power_int_add)

lemma mantissa_bounds:
  assumes "0 < x" and "u = 2 powi (ilog2 x - 23)"
  shows "8388608 \<le> x / u" and "x / u < 16777216" and "0 < u"
proof -
  show u: "0 < u" using assms(2) by simp
  have "8388608 * u \<le> x" and "x < 16777216 * u"
    using ilog2_bounds [OF assms(1)] ulp_split [of "ilog2 x"] ulp_double [of "ilog2 x"] assms(2)
    by simp_all
  with u show "8388608 \<le> x / u" and "x / u < 16777216" by (simp_all add: field_simps)
qed

lemma rnd32_pos:
  "0 < x \<Longrightarrow> u = 2 powi (ilog2 x - 23) \<Longrightarrow> rnd32 x = of_int (rne (x / u)) * u"
  by (simp add: rnd32_def Let_def)

lemma rne_mantissa:
  assumes "0 < x" and "u = 2 powi (ilog2 x - 23)"
  shows "8388608 \<le> rne (x / u)" and "rne (x / u) \<le> 16777216"
proof -
  note b = mantissa_bounds [OF assms]
  have "rne (of_int 8388608) \<le> rne (x / u)" using b(1) by (intro rne_mono) simp
  then show "8388608 \<le> rne (x / u)" by (simp only: rne_of_int)
  have "rne (x / u) \<le> rne (of_int 16777216)" using b(2) by (intro rne_mono) simp
  then show "rne (x / u) \<le> 16777216" by (simp only: rne_of_int)
qed

text \<open>A rounded value stays in the binade of its argument, its end included.\<close>

lemma rnd32_binade:
  assumes "0 < x"
  shows "2 powi ilog2 x \<le> rnd32 x" and "rnd32 x \<le> 2 powi (ilog2 x + 1)"
proof -
  define u :: rat where "u = 2 powi (ilog2 x - 23)"
  note r = rne_mantissa [OF assms u_def] and u = mantissa_bounds(3) [OF assms u_def]
  have "of_int 8388608 * u \<le> of_int (rne (x / u)) * u"
    using r(1) u by (intro mult_right_mono) (simp_all only: of_int_le_iff less_imp_le)
  then show "2 powi ilog2 x \<le> rnd32 x"
    using rnd32_pos [OF assms u_def] ulp_split [of "ilog2 x"] by (simp add: u_def)
  have "of_int (rne (x / u)) * u \<le> of_int 16777216 * u"
    using r(2) u by (intro mult_right_mono) (simp_all only: of_int_le_iff less_imp_le)
  then show "rnd32 x \<le> 2 powi (ilog2 x + 1)"
    using rnd32_pos [OF assms u_def] ulp_split [of "ilog2 x"] ulp_double [of "ilog2 x"]
    by (simp add: u_def)
qed

lemma rnd32_nonneg: "0 \<le> rnd32 x"
proof (cases "0 < x")
  case True
  have "0 < (2::rat) powi ilog2 x" by simp
  with rnd32_binade(1) [OF True] show ?thesis by (meson less_imp_le less_le_trans)
qed (simp add: rnd32_def)

lemma rnd32_mono: "x \<le> y \<Longrightarrow> rnd32 x \<le> rnd32 y"
proof (cases "0 < x")
  case True
  assume le: "x \<le> y"
  with True have y: "0 < y" by simp
  consider "ilog2 x = ilog2 y" | "ilog2 x < ilog2 y" | "ilog2 y < ilog2 x" by linarith
  then show ?thesis
  proof cases
    case 1
    define u :: rat where "u = 2 powi (ilog2 x - 23)"
    have u: "0 < u" by (simp add: u_def)
    have "rne (x / u) \<le> rne (y / u)" using le u by (intro rne_mono divide_right_mono) simp_all
    then have "of_int (rne (x / u)) * u \<le> of_int (rne (y / u)) * u"
      using u by (intro mult_right_mono) (simp_all only: of_int_le_iff less_imp_le)
    then show ?thesis
      using rnd32_pos [OF True u_def] rnd32_pos [OF y, of u] 1 by (simp add: u_def)
  next
    case 2
    have "rnd32 x \<le> 2 powi (ilog2 x + 1)" by (rule rnd32_binade(2) [OF True])
    also have "\<dots> \<le> 2 powi ilog2 y" using 2 by (intro power_int_increasing) simp_all
    also have "\<dots> \<le> rnd32 y" by (rule rnd32_binade(1) [OF y])
    finally show ?thesis .
  next
    case 3
    have "y < 2 powi (ilog2 y + 1)" by (rule ilog2_bounds(2) [OF y])
    also have "\<dots> \<le> 2 powi ilog2 x" using 3 by (intro power_int_increasing) simp_all
    also have "\<dots> \<le> x" by (rule ilog2_bounds(1) [OF True])
    finally show ?thesis using le by simp
  qed
next
  case False
  then show ?thesis by (simp add: rnd32_def [of x] rnd32_nonneg)
qed

lemma ilog2_double: "0 < x \<Longrightarrow> ilog2 (2 * x) = ilog2 x + 1"
  using ilog2_bounds [of x] ulp_double [of "ilog2 x"] ulp_double [of "ilog2 x + 1"]
  by (intro ilog2_unique) simp_all

lemma rnd32_double: "rnd32 (2 * x) = 2 * rnd32 x"
proof (cases "0 < x")
  case True
  have "(2::rat) powi (ilog2 (2 * x) - 23) = 2 * 2 powi (ilog2 x - 23)"
    using ulp_double [of "ilog2 x - 23"] by (simp add: ilog2_double [OF True])
  with True show ?thesis by (simp add: rnd32_def Let_def)
qed (simp add: rnd32_def)

text \<open>Relative error: half a unit in the last place.\<close>

lemma rnd32_error:
  assumes "0 \<le> x"
  shows "\<bar>rnd32 x - x\<bar> \<le> x / 16777216"
proof (cases "x = 0")
  case False
  with assms have pos: "0 < x" by simp
  define u :: rat where "u = 2 powi (ilog2 x - 23)"
  note m = mantissa_bounds [OF pos u_def]
  have "\<bar>of_int (rne (x / u)) - x / u\<bar> \<le> 1 / 2"
    using rne_bounds [of "x / u"] by linarith
  then have "\<bar>of_int (rne (x / u)) - x / u\<bar> * u \<le> 1 / 2 * u"
    using m(3) by (intro mult_right_mono) simp_all
  moreover have "rnd32 x - x = (of_int (rne (x / u)) - x / u) * u"
    using m(3) by (simp add: rnd32_pos [OF pos u_def] left_diff_distrib)
  then have "\<bar>rnd32 x - x\<bar> = \<bar>of_int (rne (x / u)) - x / u\<bar> * u"
    using abs_mult [of _ u] abs_of_pos [OF m(3)] by metis
  moreover have "8388608 * u \<le> x" using m(1,3) by (simp add: field_simps)
  ultimately show ?thesis by simp
qed (simp add: rnd32_def)

text \<open>Integers of at most 24 bits, and their halves, are floats.\<close>

lemma rnd32_exact:
  assumes "x = of_nat m * 2 powi e" and "8388608 \<le> m" and "m < 16777216"
  shows "rnd32 x = x"
proof -
  have "(2::rat) powi (e + 23) = 8388608 * 2 powi e"
    using ulp_split [of "e + 23"] by simp
  moreover have "(8388608::rat) \<le> of_nat m" "of_nat m < (16777216::rat)"
    using assms(2,3) of_nat_le_iff [of 8388608 m, where ?'a = rat]
      of_nat_less_iff [of m 16777216, where ?'a = rat] by simp_all
  ultimately have "ilog2 x = e + 23"
    using ulp_double [of "e + 23"] by (intro ilog2_unique) (simp_all add: assms(1))
  then have u: "2 powi e = (2::rat) powi (ilog2 x - 23)" by simp
  have "0 < x" using assms(1,2) by simp
  have "x / 2 powi e = of_int (int m)" using assms(1) by simp
  then show ?thesis
    using rnd32_pos [OF \<open>0 < x\<close> u] assms(1) rne_of_int [of "int m"] by simp
qed

section \<open>A percentage computed in floating point\<close>

text \<open>
  \<open>((float)used / tot) * 100\<close>: both operands are converted to \<open>float\<close>, and the quotient and the
  product are rounded.
\<close>

definition float_percent :: "(rat \<Rightarrow> rat) \<Rightarrow> rat \<Rightarrow> rat \<Rightarrow> rat" where
  "float_percent rnd used tot = rnd (rnd (rnd used / rnd tot) * 100)"

locale rounding =
  fixes rnd :: "rat \<Rightarrow> rat"
  assumes mono: "x \<le> y \<Longrightarrow> rnd x \<le> rnd y"
    and double: "rnd (2 * x) = 2 * rnd x"
    and error: "0 \<le> x \<Longrightarrow> \<bar>rnd x - x\<bar> \<le> x / 16777216"
    and half: "rnd (1 / 2) = 1 / 2"
    and fifty: "rnd 50 = 50"
begin

lemma up: "0 \<le> x \<Longrightarrow> rnd x \<le> x * (16777217 / 16777216)"
  using error [of x] by linarith

lemma down: "0 \<le> x \<Longrightarrow> x * (16777215 / 16777216) \<le> rnd x"
  using error [of x] by linarith

lemma pos: "0 < x \<Longrightarrow> 0 < rnd x"
  using down [of x] by simp

lemma nonneg: "0 \<le> x \<Longrightarrow> 0 \<le> rnd x"
  using down [of x] by simp

lemma above_half:
  assumes "0 \<le> u" and "0 < t" and "50 < float_percent rnd u t"
  shows "t < 2 * u"
proof (rule ccontr)
  assume "\<not> t < 2 * u"
  then have "rnd (2 * u) \<le> rnd t" by (intro mono) simp
  then have "2 * rnd u \<le> rnd t" by (simp only: double)
  then have "rnd u / rnd t \<le> 1 / 2" using pos [OF assms(2)] by (simp add: field_simps)
  then have "rnd (rnd u / rnd t) \<le> 1 / 2" using mono half by metis
  then have "rnd (rnd (rnd u / rnd t) * 100) \<le> rnd 50" by (intro mono) simp
  with assms(3) fifty show False by (simp add: float_percent_def)
qed

lemma quotient_bounds:
  assumes "0 \<le> u" and "0 < t"
  shows "rnd u / rnd t \<le> u / t * (16777217 / 16777215)"
    and "u / t * (16777215 / 16777217) \<le> rnd u / rnd t"
proof -
  have "rnd u / rnd t \<le> (u * (16777217 / 16777216)) / (t * (16777215 / 16777216))"
    using assms up [of u] down [of t] nonneg [of u] by (intro frac_le) simp_all
  then show "rnd u / rnd t \<le> u / t * (16777217 / 16777215)" by (simp add: field_simps)
  have "(u * (16777215 / 16777216)) / (t * (16777217 / 16777216)) \<le> rnd u / rnd t"
    using assms down [of u] up [of t] pos [of t] nonneg [of u] by (intro frac_le) simp_all
  then show "u / t * (16777215 / 16777217) \<le> rnd u / rnd t" by (simp add: field_simps)
qed

lemma accuracy:
  assumes "0 \<le> u" and "0 < t"
  shows "\<bar>float_percent rnd u t * t - 100 * u\<bar> \<le> 100 * u / 1048576"
proof -
  define q where "q = rnd u / rnd t"
  define r where "r = rnd q"
  define x where "x = u / t"
  have x: "0 \<le> x" "u = x * t" using assms by (simp_all add: x_def)
  have q: "q \<le> x * (16777217 / 16777215)" "x * (16777215 / 16777217) \<le> q"
    using quotient_bounds [OF assms] by (simp_all add: q_def x_def)
  have q0: "0 \<le> q" using q(2) x(1) by linarith
  have r: "r \<le> q * (16777217 / 16777216)" "q * (16777215 / 16777216) \<le> r" "0 \<le> r"
    using up [OF q0] down [OF q0] nonneg [OF q0] by (simp_all add: r_def)
  have p: "float_percent rnd u t \<le> r * 100 * (16777217 / 16777216)"
    "r * 100 * (16777215 / 16777216) \<le> float_percent rnd u t"
    using up [of "r * 100"] down [of "r * 100"] r(3) by (simp_all add: float_percent_def r_def q_def)
  have hi: "float_percent rnd u t \<le> 100 * x * (1048577 / 1048576)"
    using p(1) r(1) q(1) x(1) by linarith
  have lo: "100 * x * (1048575 / 1048576) \<le> float_percent rnd u t"
    using p(2) r(2) q(2) x(1) by linarith
  have "float_percent rnd u t * t \<le> 100 * x * (1048577 / 1048576) * t"
    and "100 * x * (1048575 / 1048576) * t \<le> float_percent rnd u t * t"
    using hi lo assms(2) by (intro mult_right_mono; simp)+
  moreover have "100 * x * c * t = 100 * u * c" for c using x(2) by simp
  ultimately have "float_percent rnd u t * t \<le> 100 * u * (1048577 / 1048576)"
    and "100 * u * (1048575 / 1048576) \<le> float_percent rnd u t * t" by (simp_all only:)
  then show ?thesis by linarith
qed

end

interpretation f32: rounding rnd32
proof
  show "rnd32 (1 / 2) = 1 / 2"
    using rnd32_exact [of "1 / 2" 8388608 "-24"] by (simp add: power_int_minus)
  show "rnd32 50 = 50"
    using rnd32_exact [of 50 13107200 "-18"] by (simp add: power_int_minus)
qed (fact rnd32_mono rnd32_double rnd32_error)+

text \<open>On natural numbers: the test \<open>> 50\<close> is exact from below and accurate to \<open>2 ^ -20\<close> from above.\<close>

lemma percent_above_half:
  assumes "0 < t" and "50 < float_percent rnd32 (of_nat u) (of_nat t)"
  shows "t < 2 * u"
proof -
  have "(of_nat t :: rat) < 2 * of_nat u" using assms by (intro f32.above_half) simp_all
  then have "(of_nat t :: rat) < of_nat (2 * u)" by simp
  then show ?thesis by (simp only: of_nat_less_iff)
qed

lemma percent_detects:
  assumes "0 < t" and "t * 1048576 < 2 * u * 1048575"
  shows "50 < float_percent rnd32 (of_nat u) (of_nat t)"
proof (rule ccontr)
  let ?p = "float_percent rnd32 (of_nat u) (of_nat t)"
  assume "\<not> 50 < ?p"
  then have "?p * of_nat t \<le> 50 * of_nat t" by (intro mult_right_mono) simp_all
  moreover have "\<bar>?p * of_nat t - 100 * of_nat u\<bar> \<le> 100 * of_nat u / 1048576"
    using assms(1) by (intro f32.accuracy) simp_all
  moreover have "of_nat (t * 1048576) < (of_nat (2 * u * 1048575) :: rat)"
    using assms(2) by (simp only: of_nat_less_iff)
  ultimately show False by simp
qed

end
