(* ===== verification/Prelude.thy ===== *)
theory Prelude
  imports Main "HOL-Library.Word" "HOL-Library.Monad_Syntax" "HOL-Library.Signed_Division"
begin

text \<open>
  Shared vocabulary of the development.

  \<^item> Machine integers. The C code is built for LP64 targets (x86-64, aarch64): \<open>int\<close> has 32 bits,
    \<open>long\<close> and \<open>int64_t\<close> have 64. A signed C value is an \<^typ>\<open>int\<close> and a \<open>uint64_t\<close> is a
    \<^typ>\<open>64 word\<close>; every conversion and every overflow is written out. The build passes
    \<^verbatim>\<open>-ftrapv\<close> (src/CMakeLists.txt), so that an overflowing signed addition, subtraction or
    multiplication aborts the process: \<open>ck32\<close> and \<open>ck64\<close> give \<open>None\<close> there. A conversion to
    a narrower signed type wraps, as gcc documents: \<open>wrap16\<close>, \<open>wrap32\<close>.
  \<^item> Faults. An operation that may abort, follow a dangling or null pointer, or deadlock on its
    own mutex has an \<open>option\<close> result, and \<open>None\<close> is that fault. Ordinary failures of the code
    (a negative return value) are values, never \<open>None\<close>.
  \<^item> Loops over the VM list are \<open>foreach\<close>; \<open>keeps\<close> is the contract of an operation that returns
    and maintains an invariant, the form in which the component invariants are stated.
\<close>

section \<open>Machine integers\<close>

type_synonym u64 = "64 word"
type_synonym addr = nat

definition in_s32 :: "int \<Rightarrow> bool" where
  "in_s32 i \<longleftrightarrow> - 2147483648 \<le> i \<and> i < 2147483648"

definition in_s64 :: "int \<Rightarrow> bool" where
  "in_s64 i \<longleftrightarrow> - 9223372036854775808 \<le> i \<and> i < 9223372036854775808"

definition ck32 :: "int \<Rightarrow> int option" where
  "ck32 i = (if in_s32 i then Some i else None)"

definition ck64 :: "int \<Rightarrow> int option" where
  "ck64 i = (if in_s64 i then Some i else None)"

definition wrap16 :: "int \<Rightarrow> int" where
  "wrap16 i = signed_take_bit 15 i"

definition wrap32 :: "int \<Rightarrow> int" where
  "wrap32 i = signed_take_bit 31 i"

named_theorems cint "definitions and facts on bounded C integers"

declare in_s32_def [cint] in_s64_def [cint] ck32_def [cint] ck64_def [cint]

lemma ck32_SomeD [dest]: "ck32 i = Some j \<Longrightarrow> j = i \<and> in_s32 i"
  by (simp add: ck32_def split: if_splits)

lemma ck64_SomeD [dest]: "ck64 i = Some j \<Longrightarrow> j = i \<and> in_s64 i"
  by (simp add: ck64_def split: if_splits)

lemma ck32_in [simp]: "in_s32 i \<Longrightarrow> ck32 i = Some i"
  by (simp add: ck32_def)

lemma ck64_in [simp]: "in_s64 i \<Longrightarrow> ck64 i = Some i"
  by (simp add: ck64_def)

lemma wrap32_id: "in_s32 i \<Longrightarrow> wrap32 i = i"
  by (simp add: wrap32_def in_s32_def signed_take_bit_int_eq_self)

lemma wrap16_id: "- 32768 \<le> i \<Longrightarrow> i < 32768 \<Longrightarrow> wrap16 i = i"
  by (simp add: wrap16_def signed_take_bit_int_eq_self)

lemma wrap32_in_s32 [simp]: "in_s32 (wrap32 i)"
  using signed_take_bit_int_greater_eq_minus_exp [of 31 i]
    signed_take_bit_int_less_exp [of 31 i]
  by (simp add: wrap32_def in_s32_def)

lemma sint_in_s64 [simp]: "in_s64 (sint (w :: u64))"
  using sint_range_size [of w] by (simp add: in_s64_def word_size)

text \<open>Round trips between \<open>int64_t\<close> and \<open>uint64_t\<close>.\<close>

lemma sint_of_int_s64: "in_s64 i \<Longrightarrow> sint (word_of_int i :: u64) = i"
  by (simp add: in_s64_def signed_of_int signed_take_bit_int_eq_self)

lemma unat_of_int_nonneg:
  "0 \<le> i \<Longrightarrow> in_s64 i \<Longrightarrow> unat (word_of_int i :: u64) = nat i"
  by (simp add: in_s64_def unat_eq_nat_uint uint_word_of_int)

section \<open>Invariant-keeping operations\<close>

definition keeps :: "('s \<Rightarrow> bool) \<Rightarrow> ('s \<Rightarrow> ('a \<times> 's) option) \<Rightarrow> bool" where
  "keeps I f \<longleftrightarrow> (\<forall>s. I s \<longrightarrow> (\<exists>a s'. f s = Some (a, s') \<and> I s'))"

lemma keepsI [intro?]:
  "(\<And>s. I s \<Longrightarrow> \<exists>a s'. f s = Some (a, s') \<and> I s') \<Longrightarrow> keeps I f"
  by (simp add: keeps_def)

lemma keepsE [elim?]:
  assumes "keeps I f" and "I s"
  obtains a s' where "f s = Some (a, s')" and "I s'"
  using assms by (auto simp: keeps_def)

fun foreach :: "('x \<Rightarrow> 's \<Rightarrow> 's option) \<Rightarrow> 'x list \<Rightarrow> 's \<Rightarrow> 's option" where
  "foreach f [] s = Some s"
| "foreach f (x # xs) s = do { s' \<leftarrow> f x s; foreach f xs s' }"

lemma foreach_append:
  "foreach f (xs @ ys) s = do { s' \<leftarrow> foreach f xs s; foreach f ys s' }"
  by (induction xs arbitrary: s) (auto split: Option.bind_splits)

text \<open>The loop rule: a body that keeps \<open>I\<close> at every element of the list never faults.\<close>

lemma foreach_keeps:
  assumes "\<And>x s. x \<in> set xs \<Longrightarrow> I s \<Longrightarrow> \<exists>s'. f x s = Some s' \<and> I s'" and "I s"
  shows "\<exists>s'. foreach f xs s = Some s' \<and> I s'"
  using assms
proof (induction xs arbitrary: s)
  case Nil
  then show ?case by simp
next
  case (Cons x xs)
  then obtain s1 where "f x s = Some s1" and "I s1" by force
  moreover have "\<exists>s'. foreach f xs s1 = Some s' \<and> I s'"
    using Cons.prems(1) \<open>I s1\<close> by (intro Cons.IH) auto
  ultimately show ?case by simp
qed

end
