(* ===== verification/CString.thy ===== *)
theory CString
  imports Prelude
begin

text \<open>
  The part of the C library's string, character and number handling that the program calls.
  A C string is a \<^typ>\<open>string\<close> without NUL characters; a byte buffer is a \<^typ>\<open>string\<close> that
  may hold NULs and is followed by zero bytes, and \<open>cstr\<close> is the C string that starts at its
  first byte. Characters are bytes: \<open>byte c\<close> is the value of the \<open>unsigned char\<close>.
\<close>

definition byte :: "char \<Rightarrow> nat" where
  "byte c = of_char c"

definition NUL :: char where
  "NUL = CHR 0x00"

definition NL :: char where
  "NL = CHR 0x0A"

definition CR :: char where
  "CR = CHR 0x0D"

definition cstr :: "string \<Rightarrow> string" where
  "cstr bs = takeWhile (\<lambda>c. c \<noteq> NUL) bs"

lemma cstr_id: "NUL \<notin> set s \<Longrightarrow> cstr s = s"
  by (simp add: cstr_def takeWhile_eq_all_conv) metis

lemma NUL_notin_cstr [simp]: "NUL \<notin> set (cstr bs)"
  by (auto simp: cstr_def dest: set_takeWhileD)

text \<open>\<open>isdigit\<close> and \<open>isspace\<close> in the C locale.\<close>

definition isdigit :: "char \<Rightarrow> bool" where
  "isdigit c \<longleftrightarrow> 48 \<le> byte c \<and> byte c \<le> 57"

definition isspace :: "char \<Rightarrow> bool" where
  "isspace c \<longleftrightarrow> byte c = 32 \<or> (9 \<le> byte c \<and> byte c \<le> 13)"

section \<open>Searching and comparing\<close>

text \<open>\<open>strstr s t\<close>: the suffix of \<open>s\<close> at the first occurrence of \<open>t\<close>.\<close>

fun strstr :: "string \<Rightarrow> string \<Rightarrow> string option" where
  "strstr [] t = (if t = [] then Some [] else None)"
| "strstr (c # s) t = (if take (length t) (c # s) = t then Some (c # s) else strstr s t)"

lemma strstr_Some: "strstr s t = Some r \<Longrightarrow> \<exists>p q. s = p @ t @ q \<and> r = t @ q"
proof (induction s t rule: strstr.induct)
  case (1 t)
  then show ?case by (auto split: if_splits)
next
  case (2 c s t)
  show ?case
  proof (cases "take (length t) (c # s) = t")
    case True
    then have "c # s = [] @ t @ drop (length t) (c # s) \<and> r = t @ drop (length t) (c # s)"
      using 2(2) by (metis append_Nil append_take_drop_id option.inject strstr.simps(2))
    then show ?thesis by blast
  next
    case False
    with 2 obtain p q where "s = p @ t @ q" and "r = t @ q" by auto
    then have "c # s = (c # p) @ t @ q \<and> r = t @ q" by simp
    then show ?thesis by blast
  qed
qed

lemma strstr_None: "strstr s t = None \<Longrightarrow> s \<noteq> p @ t @ q"
proof (induction s t arbitrary: p rule: strstr.induct)
  case (1 t)
  then show ?case by (auto split: if_splits)
next
  case (2 c s t)
  then show ?case by (cases p) (auto split: if_splits)
qed

lemma strstr_iff: "strstr s t \<noteq> None \<longleftrightarrow> (\<exists>p q. s = p @ t @ q)"
proof
  assume "strstr s t \<noteq> None"
  then show "\<exists>p q. s = p @ t @ q" using strstr_Some by blast
next
  assume "\<exists>p q. s = p @ t @ q"
  then show "strstr s t \<noteq> None" using strstr_None by blast
qed

text \<open>\<open>strncmp(a, b, strlen(b)) == 0\<close>: \<open>b\<close> is a prefix of \<open>a\<close>.\<close>

definition strncmp_eq :: "string \<Rightarrow> string \<Rightarrow> nat \<Rightarrow> bool" where
  "strncmp_eq a b n \<longleftrightarrow> take n a = take n b"

text \<open>The nonempty fields of a string between occurrences of a separator.\<close>

fun csplit :: "char \<Rightarrow> string \<Rightarrow> string list" where
  "csplit d [] = [[]]"
| "csplit d (c # s) =
     (if c = d then [] # csplit d s
      else case csplit d s of [] \<Rightarrow> [[c]] | f # fs \<Rightarrow> (c # f) # fs)"

definition sep_fields :: "char \<Rightarrow> string \<Rightarrow> string list" where
  "sep_fields d s = filter (\<lambda>f. f \<noteq> []) (csplit d s)"

lemma csplit_nonempty [simp]: "csplit d s \<noteq> []"
  by (cases s) (auto split: list.splits)

lemma csplit_append_sep: "d \<notin> set t \<Longrightarrow> csplit d (t @ d # r) = t # csplit d r"
  by (induction t) auto

lemma csplit_no_sep: "d \<notin> set t \<Longrightarrow> csplit d t = [t]"
  by (induction t) auto

lemma sep_fields_sep [simp]: "sep_fields d (d # s) = sep_fields d s"
  by (simp add: sep_fields_def)

lemma sep_fields_dropWhile: "sep_fields d (dropWhile (\<lambda>c. c = d) s) = sep_fields d s"
  by (induction s) auto

lemma sep_fields_token:
  assumes "s = dropWhile (\<lambda>c. c = d) s0" and "s \<noteq> []" and "t = takeWhile (\<lambda>c. c \<noteq> d) s"
  shows "sep_fields d s0 = t # sep_fields d (drop (Suc (length t)) s)"
proof -
  have hd: "hd s \<noteq> d" using assms(1,2) hd_dropWhile [of "\<lambda>c. c = d" s0] by simp
  with assms(2,3) have t: "t \<noteq> []" by (cases s) auto
  have nd: "d \<notin> set t" using assms(3) by (auto dest: set_takeWhileD)
  have s: "s = t @ dropWhile (\<lambda>c. c \<noteq> d) s"
    unfolding assms(3) by (rule takeWhile_dropWhile_id [symmetric])
  have "sep_fields d s = t # sep_fields d (drop (Suc (length t)) s)"
  proof (cases "dropWhile (\<lambda>c. c \<noteq> d) s")
    case Nil
    with s have "s = t" by (metis append_Nil2)
    with nd t show ?thesis by (simp add: sep_fields_def csplit_no_sep)
  next
    case (Cons x r)
    then have "x = d" using hd_dropWhile [of "\<lambda>c. c \<noteq> d" s] by auto
    with Cons s have "s = t @ d # r" by metis
    with nd t show ?thesis by (simp add: sep_fields_def csplit_append_sep)
  qed
  then show ?thesis using assms(1) sep_fields_dropWhile [of d s0] by simp
qed

section \<open>Numbers\<close>

definition LONG_MAX :: int where
  "LONG_MAX = 9223372036854775807"

definition LONG_MIN :: int where
  "LONG_MIN = - 9223372036854775808"

definition ERANGE :: int where
  "ERANGE = 34"

text \<open>The value of a digit string, most significant digit first.\<close>

definition digits_val :: "string \<Rightarrow> nat" where
  "digits_val ds = foldl (\<lambda>n c. 10 * n + (byte c - 48)) 0 ds"

text \<open>
  \<open>strtol(s, &endptr, 10)\<close>: the value, the string at \<open>endptr\<close>, and whether \<open>errno\<close> is set to
  \<open>ERANGE\<close>. Without a digit nothing is converted and \<open>endptr\<close> is the start.
\<close>

definition strtol10 :: "string \<Rightarrow> int \<times> string \<times> bool" where
  "strtol10 s =
     (let s1 = dropWhile isspace s;
          neg = (s1 \<noteq> [] \<and> hd s1 = CHR ''-'');
          s2 = (if s1 \<noteq> [] \<and> (hd s1 = CHR ''-'' \<or> hd s1 = CHR ''+'') then tl s1 else s1);
          ds = takeWhile isdigit s2;
          v = (if neg then - int (digits_val ds) else int (digits_val ds))
      in if ds = [] then (0, s, False)
         else if v > LONG_MAX then (LONG_MAX, drop (length ds) s2, True)
         else if v < LONG_MIN then (LONG_MIN, drop (length ds) s2, True)
         else (v, drop (length ds) s2, False))"

text \<open>Decimal output, as the conversions d, ld and llu of the printf family print it.\<close>

definition digit_char :: "nat \<Rightarrow> char" where
  "digit_char d = char_of (48 + d)"

fun show_nat :: "nat \<Rightarrow> string" where
  "show_nat n = (if n < 10 then [digit_char n] else show_nat (n div 10) @ [digit_char (n mod 10)])"

declare show_nat.simps [simp del]

definition show_int :: "int \<Rightarrow> string" where
  "show_int i = (if i < 0 then CHR ''-'' # show_nat (nat (- i)) else show_nat (nat i))"

lemma byte_digit_char [simp]: "d < 10 \<Longrightarrow> byte (digit_char d) = 48 + d"
  by (simp add: byte_def digit_char_def)

lemma isdigit_digit_char [simp]: "d < 10 \<Longrightarrow> isdigit (digit_char d)"
  by (simp add: isdigit_def)

lemma digits_val_snoc [simp]: "digits_val (ds @ [c]) = 10 * digits_val ds + (byte c - 48)"
  by (simp add: digits_val_def)

lemma digits_val_show_nat [simp]: "digits_val (show_nat n) = n"
proof (induction n rule: show_nat.induct)
  case (1 n)
  then show ?case
    by (subst show_nat.simps) (auto simp: digits_val_def)
qed

lemma show_nat_digits: "c \<in> set (show_nat n) \<Longrightarrow> isdigit c"
proof (induction n rule: show_nat.induct)
  case (1 n)
  then show ?case
    by (subst (asm) show_nat.simps) (auto split: if_splits)
qed

lemma show_nat_nonempty [simp]: "show_nat n \<noteq> []"
  by (subst show_nat.simps) simp

lemma takeWhile_isdigit_show_nat:
  "(r = [] \<or> \<not> isdigit (hd r)) \<Longrightarrow> takeWhile isdigit (show_nat n @ r) = show_nat n"
  using show_nat_digits [of _ n]
  by (cases r) (auto simp: takeWhile_append2 takeWhile_tail)

lemma isdigit_props:
  assumes "isdigit c"
  shows "c \<noteq> NUL" "c \<noteq> CHR '' ''" "c \<noteq> NL" "c \<noteq> CR" "c \<noteq> CHR ''-''" "c \<noteq> CHR ''+''" "c \<noteq> CHR ''=''"
    and "\<not> isspace c"
  using assms by (auto simp: isdigit_def isspace_def byte_def NUL_def NL_def CR_def)

text \<open>Printing and reading back an \<open>int\<close>.\<close>

lemma show_nat_hd_digit: "isdigit (hd (show_nat n))"
  by (rule show_nat_digits [of _ n]) simp

lemma strtol10_show_int:
  assumes "in_s64 i"
  shows "strtol10 (show_int i) = (i, [], False)"
proof -
  have tw: "takeWhile isdigit (show_nat m) = show_nat m" for m
    using takeWhile_isdigit_show_nat [of "[]" m] by simp
  show ?thesis
  proof (cases "i < 0")
    case True
    have "\<not> isspace (CHR ''-'')" by (simp add: isspace_def byte_def)
    with True assms show ?thesis
      by (simp add: show_int_def strtol10_def tw Let_def LONG_MAX_def LONG_MIN_def in_s64_def)
  next
    case False
    obtain c cs where c: "show_nat (nat i) = c # cs"
      by (cases "show_nat (nat i)") auto
    with show_nat_hd_digit [of "nat i"] have "isdigit c" by simp
    note p = isdigit_props [OF this]
    have "digits_val (c # cs) = nat i" using c digits_val_show_nat [of "nat i"] by simp
    moreover have "takeWhile isdigit (c # cs) = c # cs" using tw [of "nat i"] c by simp
    ultimately show ?thesis using False assms p c
      by (simp add: show_int_def strtol10_def Let_def LONG_MAX_def LONG_MIN_def in_s64_def
          split: if_splits)
  qed
qed

lemma length_show_nat: "n < 10 ^ Suc k \<Longrightarrow> length (show_nat n) \<le> Suc k"
proof (induction k arbitrary: n)
  case 0
  then show ?case by (subst show_nat.simps) simp
next
  case (Suc k)
  show ?case
  proof (cases "n < 10")
    case True
    then show ?thesis by (subst show_nat.simps) simp
  next
    case False
    have "n div 10 < 10 ^ Suc k" using Suc.prems by (simp add: less_mult_imp_div_less mult.commute)
    then have "length (show_nat (n div 10)) \<le> Suc k" by (rule Suc.IH)
    with False show ?thesis by (subst show_nat.simps) simp
  qed
qed

lemma length_show_int: "in_s32 i \<Longrightarrow> length (show_int i) \<le> 11"
  using length_show_nat [of "nat i" 10] length_show_nat [of "nat (- i)" 9]
  by (simp add: show_int_def in_s32_def nat_less_iff)

section \<open>Reading lines\<close>

text \<open>
  \<open>fgets(line, n, fp)\<close> on the bytes that are left: at most \<open>n - 1\<close> bytes, up to and including
  the first newline; \<open>None\<close> at the end of the file.
\<close>

fun take_line :: "nat \<Rightarrow> string \<Rightarrow> string \<times> string" where
  "take_line 0 bs = ([], bs)"
| "take_line (Suc n) [] = ([], [])"
| "take_line (Suc n) (c # bs) =
     (if c = NL then ([c], bs)
      else let (l, r) = take_line n bs in (c # l, r))"

definition fgets :: "nat \<Rightarrow> string \<Rightarrow> (string \<times> string) option" where
  "fgets n bs = (if bs = [] then None else Some (take_line (n - 1) bs))"

lemma take_line_append: "take_line n bs = (l, r) \<Longrightarrow> l @ r = bs"
  by (induction n bs arbitrary: l r rule: take_line.induct)
     (auto split: if_splits prod.splits)

lemma take_line_nonempty: "0 < n \<Longrightarrow> bs \<noteq> [] \<Longrightarrow> take_line n bs = (l, r) \<Longrightarrow> l \<noteq> []"
  by (cases n; cases bs) (auto split: if_splits prod.splits)

lemma fgets_shorter: "1 < n \<Longrightarrow> fgets n bs = Some (l, r) \<Longrightarrow> length r < length bs"
  using take_line_append [of "n - 1" bs l r] take_line_nonempty [of "n - 1" bs l r]
  by (auto simp: fgets_def split: if_splits)

lemma take_line_newline:
  "NL \<notin> set l \<Longrightarrow> length l < n \<Longrightarrow> take_line n (l @ NL # r) = (l @ [NL], r)"
  by (induction l arbitrary: n) (auto simp: less_Suc_eq_0_disj gr0_conv_Suc Suc_less_eq2)

end
