(* ===== verification/Environment.thy ===== *)
theory Environment
  imports CString
begin

text \<open>
  What the program calls but does not contain: libvirt, the operating system and the securec
  library (\<open>libboundscheck\<close>). They are the fields of one record \<open>ext\<close>, a parameter of every
  operation that uses them, over an abstract world \<open>'w\<close> that only they read and change. Nothing
  is assumed of them here; \<open>calloc_ok\<close>, \<open>errno_ok\<close> and the \<open>securec\<close> predicates name the
  documented behaviour that a theorem may ask for.

  Handles are numbers: a connection, a domain and a file descriptor mean something to the
  external code only. A null handle is \<open>None\<close>.
\<close>

section \<open>Values of the libvirt interface\<close>

text \<open>\<open>virDomainInfo\<close>: the members that are read.\<close>

record vir_info =
  info_state :: int
  info_maxMem :: u64
  info_memory :: u64

text \<open>
  \<open>virTypedParameter\<close>: a field name and the 64 bits of its value union, read as \<open>.ul\<close> or, on
  the little-endian targets of the build, as \<open>.i\<close> from the low half.
\<close>

record vir_param =
  pfield :: string
  praw :: u64

definition value_ul :: "vir_param \<Rightarrow> u64" where
  "value_ul p = praw p"

definition value_i :: "vir_param \<Rightarrow> int" where
  "value_i p = wrap32 (uint (praw p))"

text \<open>\<open>virDomainStatsRecord\<close> and \<open>virDomainMemoryStatStruct\<close>.\<close>

record vir_record =
  rec_dom :: nat
  rec_params :: "vir_param list"

record vir_stat =
  stag :: int
  sval :: u64

text \<open>\<open>virError\<close>: the members that are read.\<close>

record vir_error =
  err_code :: int
  err_message :: "string option"

text \<open>A lifecycle event as libvirt delivers it: the domain, the event and its detail.\<close>

record vir_event =
  ev_dom :: "nat option"
  ev_type :: int
  ev_detail :: int

text \<open>Constants of libvirt's public headers.\<close>

abbreviation (input) VIR_DOMAIN_RUNNING :: int where "VIR_DOMAIN_RUNNING \<equiv> 1"
abbreviation (input) VIR_DOMAIN_EVENT_DEFINED :: int where "VIR_DOMAIN_EVENT_DEFINED \<equiv> 0"
abbreviation (input) VIR_DOMAIN_EVENT_STARTED :: int where "VIR_DOMAIN_EVENT_STARTED \<equiv> 2"
abbreviation (input) VIR_DOMAIN_EVENT_STOPPED :: int where "VIR_DOMAIN_EVENT_STOPPED \<equiv> 5"
abbreviation (input) VIR_DOMAIN_EVENT_ID_LIFECYCLE :: int where "VIR_DOMAIN_EVENT_ID_LIFECYCLE \<equiv> 0"
abbreviation (input) STAT_UNUSED :: int where "STAT_UNUSED \<equiv> 4"
abbreviation (input) STAT_AVAILABLE :: int where "STAT_AVAILABLE \<equiv> 5"
abbreviation (input) STAT_ACTUAL_BALLOON :: int where "STAT_ACTUAL_BALLOON \<equiv> 6"
abbreviation (input) STAT_RSS :: int where "STAT_RSS \<equiv> 7"
abbreviation (input) STAT_USABLE :: int where "STAT_USABLE \<equiv> 8"
abbreviation (input) STAT_DISK_CACHES :: int where "STAT_DISK_CACHES \<equiv> 10"
abbreviation (input) VIR_DOMAIN_MEMORY_STAT_NR :: nat where "VIR_DOMAIN_MEMORY_STAT_NR \<equiv> 13"

section \<open>The external functions\<close>

text \<open>The routines that the daemon starts threads on.\<close>

datatype thread_fn = Run_DomainEventProcessThread | Run_BalloonVmMemThread

text \<open>
  \<^item> libvirt: named as in its API; a status is an \<^typ>\<open>int\<close>, an out-parameter is part of the
    result. \<open>virEventRunDefaultImpl\<close> returns the lifecycle events whose callbacks it runs.
  \<^item> memory: \<open>calloc_vm\<close> is \<open>calloc\<close> for a VM record, told which addresses are in use;
    \<open>alloc_ok\<close> says whether any other allocation succeeds.
  \<^item> files: \<open>read_file\<close> is \<open>fopen(path, "r")\<close> with the bytes that can then be read;
    \<open>open_wronly\<close>, \<open>write_fd\<close>, \<open>close_fd\<close> are the unbuffered calls.
  \<^item> buffered output: \<open>fopen_w\<close> is \<open>fopen(path, "w+")\<close> and gives a stream; \<open>fprintf\<close> is given the
    formatted text.
  \<^item> time: \<open>gettimeofday\<close> gives its status, the seconds and the microseconds; a \<open>timespec\<close> is a
    pair of seconds and nanoseconds.
  \<^item> threads: \<open>pthread_create\<close> is given the routine and the signal mask that the new thread
    inherits; the only semaphore is the one of \<open>CreateEventThread\<close>.
  \<^item> the process: \<open>sigaction_handler\<close> is \<open>sigaction\<close> that installs \<open>SignalHandler\<close> for a signal; a
    mutex is passed to \<open>pthread_mutex_init\<close> with the default attributes.
  \<^item> the log: \<open>syslog\<close> is given the level and the formatted text.
  \<^item> \<open>get_errno\<close>, \<open>set_errno\<close>: the calling thread's \<open>errno\<close>.
  \<^item> securec: \<open>snprintf_s\<close>, \<open>vsnprintf_s\<close> and \<open>sprintf_s\<close> are given the size of the buffer and the formatted
    text and give the return value and the buffer's string. \<open>strtof\<close> gives the bits of the
    value and the rest of the string. \<open>sscanf_s_kv\<close> is
    \<open>sscanf_s(line, "%[^=]=%d\n", tmpkey, size, &tmpValue)\<close>: it is given the line, the size and
    the old contents of the two variables, and gives the result and their new contents.
\<close>

record 'w ext =
  virConnectOpen :: "string \<Rightarrow> 'w \<Rightarrow> nat option \<times> 'w"
  virConnectClose :: "nat \<Rightarrow> 'w \<Rightarrow> 'w"
  virConnectIsAlive :: "nat option \<Rightarrow> 'w \<Rightarrow> int \<times> 'w"
  virConnectNumOfDomains :: "nat \<Rightarrow> 'w \<Rightarrow> int \<times> 'w"
  virConnectListDomains :: "nat \<Rightarrow> int \<Rightarrow> 'w \<Rightarrow> (int \<times> int list) \<times> 'w"
  virConnectGetAllDomainStats :: "nat \<Rightarrow> 'w \<Rightarrow> (int \<times> vir_record list) \<times> 'w"
  virDomainStatsRecordListFree :: "vir_record list \<Rightarrow> 'w \<Rightarrow> 'w"
  virConnectDomainEventRegisterAny :: "nat option \<Rightarrow> int \<Rightarrow> 'w \<Rightarrow> int \<times> 'w"
  virConnectDomainEventDeregisterAny :: "nat option \<Rightarrow> int \<Rightarrow> 'w \<Rightarrow> 'w"
  virEventRegisterDefaultImpl :: "'w \<Rightarrow> int \<times> 'w"
  virEventRunDefaultImpl :: "'w \<Rightarrow> (int \<times> vir_event list) \<times> 'w"
  virDomainLookupByID :: "nat \<Rightarrow> int \<Rightarrow> 'w \<Rightarrow> nat option \<times> 'w"
  virDomainFree :: "nat \<Rightarrow> 'w \<Rightarrow> 'w"
  virDomainGetName :: "nat option \<Rightarrow> 'w \<Rightarrow> string option \<times> 'w"
  virDomainGetID :: "nat option \<Rightarrow> 'w \<Rightarrow> 32 word \<times> 'w"
  virDomainIsActive :: "nat option \<Rightarrow> 'w \<Rightarrow> int \<times> 'w"
  virDomainGetInfo :: "nat option \<Rightarrow> 'w \<Rightarrow> (int \<times> vir_info) \<times> 'w"
  virDomainSetMemoryStatsPeriod :: "nat option \<Rightarrow> int \<Rightarrow> 'w \<Rightarrow> int \<times> 'w"
  virDomainMemoryStats :: "nat \<Rightarrow> nat \<Rightarrow> 'w \<Rightarrow> (int \<times> vir_stat list) \<times> 'w"
  virDomainSetMemoryFlags :: "nat option \<Rightarrow> u64 \<Rightarrow> 'w \<Rightarrow> int \<times> 'w"
  virGetLastError :: "'w \<Rightarrow> vir_error option"
  calloc_vm :: "(addr \<Rightarrow> bool) \<Rightarrow> 'w \<Rightarrow> addr option \<times> 'w"
  alloc_ok :: "'w \<Rightarrow> bool \<times> 'w"
  realpath :: "string \<Rightarrow> 'w \<Rightarrow> string option \<times> 'w"
  read_file :: "string \<Rightarrow> 'w \<Rightarrow> string option \<times> 'w"
  open_wronly :: "string \<Rightarrow> 'w \<Rightarrow> int \<times> 'w"
  write_fd :: "int \<Rightarrow> string \<Rightarrow> 'w \<Rightarrow> int \<times> 'w"
  close_fd :: "int \<Rightarrow> 'w \<Rightarrow> 'w"
  get_errno :: "'w \<Rightarrow> int"
  set_errno :: "int \<Rightarrow> 'w \<Rightarrow> 'w"
  snprintf_s :: "nat \<Rightarrow> nat \<Rightarrow> string \<Rightarrow> int \<times> string"
  sprintf_s :: "nat \<Rightarrow> string \<Rightarrow> int \<times> string"
  memset_s :: "nat \<Rightarrow> nat \<Rightarrow> int"
  strncpy_s :: "nat \<Rightarrow> string \<Rightarrow> nat \<Rightarrow> int \<times> string"
  fscanf_s_llu :: "string \<Rightarrow> int \<times> u64"
  strtok_s :: "string \<Rightarrow> string \<Rightarrow> (string \<times> string) option"
  strtof :: "string \<Rightarrow> 32 word \<times> string"
  sscanf_s_kv :: "string \<Rightarrow> nat \<Rightarrow> string \<times> int \<Rightarrow> int \<times> string \<times> int"
  fopen_w :: "string \<Rightarrow> 'w \<Rightarrow> int option \<times> 'w"
  fputs :: "int \<Rightarrow> string \<Rightarrow> 'w \<Rightarrow> int \<times> 'w"
  fprintf :: "int \<Rightarrow> string \<Rightarrow> 'w \<Rightarrow> int \<times> 'w"
  fclose :: "int \<Rightarrow> 'w \<Rightarrow> 'w"
  rename_file :: "string \<Rightarrow> string \<Rightarrow> 'w \<Rightarrow> int \<times> 'w"
  gettimeofday :: "'w \<Rightarrow> (int \<times> int \<times> int) \<times> 'w"
  nanosleep :: "int \<times> int \<Rightarrow> 'w \<Rightarrow> int \<times> 'w"
  sem_init :: "nat \<Rightarrow> 'w \<Rightarrow> int \<times> 'w"
  sem_post :: "'w \<Rightarrow> int \<times> 'w"
  sem_timedwait :: "int \<times> int \<Rightarrow> 'w \<Rightarrow> int \<times> 'w"
  sem_destroy :: "'w \<Rightarrow> int \<times> 'w"
  pthread_attr_init :: "'w \<Rightarrow> int \<times> 'w"
  pthread_attr_setdetachstate :: "'w \<Rightarrow> int \<times> 'w"
  pthread_create :: "thread_fn \<Rightarrow> (int \<Rightarrow> bool) \<Rightarrow> 'w \<Rightarrow> int \<times> 'w"
  daemon_call :: "'w \<Rightarrow> int \<times> 'w"
  open_creat :: "string \<Rightarrow> 'w \<Rightarrow> int \<times> 'w"
  lockf_tlock :: "int \<Rightarrow> 'w \<Rightarrow> int \<times> 'w"
  ftruncate_0 :: "int \<Rightarrow> 'w \<Rightarrow> int \<times> 'w"
  getpid :: "'w \<Rightarrow> int"
  unlink :: "string \<Rightarrow> 'w \<Rightarrow> 'w"
  umask_call :: "int \<Rightarrow> 'w \<Rightarrow> 'w"
  sigaction_handler :: "int \<Rightarrow> 'w \<Rightarrow> 'w"
  pthread_mutex_init :: "'w \<Rightarrow> int \<times> 'w"
  pthread_mutex_destroy :: "'w \<Rightarrow> 'w"
  vsnprintf_s :: "nat \<Rightarrow> nat \<Rightarrow> string \<Rightarrow> int \<times> string"
  syslog :: "int \<Rightarrow> string \<Rightarrow> 'w \<Rightarrow> 'w"
  openlog :: "string \<Rightarrow> 'w \<Rightarrow> 'w"
  closelog :: "'w \<Rightarrow> 'w"

section \<open>Documented behaviour\<close>

text \<open>An object that \<open>calloc\<close> returns does not overlap a live one.\<close>

definition calloc_ok :: "'w ext \<Rightarrow> bool" where
  "calloc_ok E \<longleftrightarrow> (\<forall>used w a w'. calloc_vm E used w = (Some a, w') \<longrightarrow> \<not> used a)"

lemma calloc_okD: "calloc_ok E \<Longrightarrow> calloc_vm E used w = (Some a, w') \<Longrightarrow> \<not> used a"
  by (auto simp: calloc_ok_def)

definition errno_ok :: "'w ext \<Rightarrow> bool" where
  "errno_ok E \<longleftrightarrow> (\<forall>e w. get_errno E (set_errno E e w) = e)"

text \<open>
  securec's formatted output: the text and its length when it fits, and otherwise -1.
  \<open>memset_s\<close> and \<open>strncpy_s\<close> return 0 when the destination is large enough.
\<close>

definition snprintf_s_ok :: "'w ext \<Rightarrow> bool" where
  "snprintf_s_ok E \<longleftrightarrow>
     (\<forall>m n t. n < m \<longrightarrow>
        (length t \<le> n \<longrightarrow> snprintf_s E m n t = (int (length t), t)) \<and>
        (n < length t \<longrightarrow> fst (snprintf_s E m n t) = -1))"

definition sprintf_s_ok :: "'w ext \<Rightarrow> bool" where
  "sprintf_s_ok E \<longleftrightarrow>
     (\<forall>m t. (length t < m \<longrightarrow> sprintf_s E m t = (int (length t), t)) \<and>
            (m \<le> length t \<longrightarrow> fst (sprintf_s E m t) = -1))"

definition memset_s_ok :: "'w ext \<Rightarrow> bool" where
  "memset_s_ok E \<longleftrightarrow> (\<forall>m n. n \<le> m \<longrightarrow> memset_s E m n = 0)"

definition strncpy_s_ok :: "'w ext \<Rightarrow> bool" where
  "strncpy_s_ok E \<longleftrightarrow> (\<forall>m s n. min n (length s) < m \<longrightarrow> strncpy_s E m s n = (0, take n s))"

text \<open>
  \<open>strtok_s\<close> on the rest of the string and a set of delimiters: the leading delimiters are
  skipped; the token runs to the next delimiter, which is consumed; no token, no result.
\<close>

definition strtok_s_ok :: "'w ext \<Rightarrow> bool" where
  "strtok_s_ok E \<longleftrightarrow>
     (\<forall>s d. strtok_s E s d =
        (let s1 = dropWhile (\<lambda>c. c \<in> set d) s;
             t = takeWhile (\<lambda>c. c \<notin> set d) s1
         in if s1 = [] then None else Some (t, drop (Suc (length t)) s1)))"

definition securec_ok :: "'w ext \<Rightarrow> bool" where
  "securec_ok E \<longleftrightarrow>
     snprintf_s_ok E \<and> sprintf_s_ok E \<and> memset_s_ok E \<and> strncpy_s_ok E \<and> strtok_s_ok E"

lemma securec_okD [dest]:
  assumes "securec_ok E"
  shows "snprintf_s_ok E" "sprintf_s_ok E" "memset_s_ok E" "strncpy_s_ok E" "strtok_s_ok E"
  using assms by (simp_all add: securec_ok_def)

lemma snprintf_s_fits:
  "snprintf_s_ok E \<Longrightarrow> n < m \<Longrightarrow> length t \<le> n \<Longrightarrow> snprintf_s E m n t = (int (length t), t)"
  by (simp add: snprintf_s_ok_def)

lemma sprintf_s_fits:
  "sprintf_s_ok E \<Longrightarrow> length t < m \<Longrightarrow> sprintf_s E m t = (int (length t), t)"
  by (simp add: sprintf_s_ok_def)

lemma strncpy_s_fits:
  "strncpy_s_ok E \<Longrightarrow> length s < m \<Longrightarrow> strncpy_s E m s (length s) = (0, s)"
  by (simp add: strncpy_s_ok_def)

section \<open>A concrete environment\<close>

text \<open>
  An environment that satisfies the documented behaviour, on which theorems with hypotheses
  about \<open>ext\<close> are instantiated: every libvirt call fails, there are no files, and the world
  holds \<open>errno\<close> and the balloon requests made so far. Instances update single fields.
\<close>

type_synonym ref_world = "int \<times> (nat option \<times> u64) list"

definition ref_ext :: "ref_world ext" where
  "ref_ext = \<lparr>
     virConnectOpen = (\<lambda>_ w. (Some 0, w)),
     virConnectClose = (\<lambda>_ w. w),
     virConnectIsAlive = (\<lambda>_ w. (1, w)),
     virConnectNumOfDomains = (\<lambda>_ w. (-1, w)),
     virConnectListDomains = (\<lambda>_ _ w. ((-1, []), w)),
     virConnectGetAllDomainStats = (\<lambda>_ w. ((-1, []), w)),
     virDomainStatsRecordListFree = (\<lambda>_ w. w),
     virConnectDomainEventRegisterAny = (\<lambda>_ _ w. (0, w)),
     virConnectDomainEventDeregisterAny = (\<lambda>_ _ w. w),
     virEventRegisterDefaultImpl = (\<lambda>w. (0, w)),
     virEventRunDefaultImpl = (\<lambda>w. ((0, []), w)),
     virDomainLookupByID = (\<lambda>_ _ w. (None, w)),
     virDomainFree = (\<lambda>_ w. w),
     virDomainGetName = (\<lambda>_ w. (None, w)),
     virDomainGetID = (\<lambda>_ w. (0, w)),
     virDomainIsActive = (\<lambda>_ w. (-1, w)),
     virDomainGetInfo = (\<lambda>_ w. ((-1, \<lparr>info_state = 0, info_maxMem = 0, info_memory = 0\<rparr>), w)),
     virDomainSetMemoryStatsPeriod = (\<lambda>_ _ w. (0, w)),
     virDomainMemoryStats = (\<lambda>_ _ w. ((-1, []), w)),
     virDomainSetMemoryFlags = (\<lambda>d t w. (0, (fst w, snd w @ [(d, t)]))),
     virGetLastError = (\<lambda>_. None),
     calloc_vm = (\<lambda>_ w. (None, w)),
     alloc_ok = (\<lambda>w. (True, w)),
     realpath = (\<lambda>p w. (Some p, w)),
     read_file = (\<lambda>_ w. (None, w)),
     open_wronly = (\<lambda>_ w. (-1, w)),
     write_fd = (\<lambda>_ _ w. (-1, w)),
     close_fd = (\<lambda>_ w. w),
     get_errno = fst,
     set_errno = (\<lambda>e w. (e, snd w)),
     snprintf_s = (\<lambda>m n t. if length t \<le> n then (int (length t), t) else (-1, take n t)),
     sprintf_s = (\<lambda>m t. if length t < m then (int (length t), t) else (-1, [])),
     memset_s = (\<lambda>m n. if n \<le> m then 0 else 162),
     strncpy_s = (\<lambda>m s n. if min n (length s) < m then (0, take n s) else (162, [])),
     fscanf_s_llu = (\<lambda>_. (-1, 0)),
     strtok_s = (\<lambda>s d.
        let s1 = dropWhile (\<lambda>c. c \<in> set d) s;
            t = takeWhile (\<lambda>c. c \<notin> set d) s1
        in if s1 = [] then None else Some (t, drop (Suc (length t)) s1)),
     strtof = (\<lambda>s. (0, s)),
     sscanf_s_kv = (\<lambda>line n old.
        let k = takeWhile (\<lambda>c. c \<noteq> CHR ''='') line; r = drop (Suc (length k)) line
        in if k = [] \<or> n \<le> length k then (0, old)
           else if dropWhile isspace r = [] then (1, k, snd old)
           else (2, k, fst (strtol10 r))),
     fopen_w = (\<lambda>_ w. (Some 3, w)),
     fputs = (\<lambda>_ _ w. (0, w)),
     fprintf = (\<lambda>_ t w. (int (length t), w)),
     fclose = (\<lambda>_ w. w),
     rename_file = (\<lambda>_ _ w. (0, w)),
     gettimeofday = (\<lambda>w. ((0, 1000, 250000), w)),
     nanosleep = (\<lambda>_ w. (0, w)),
     sem_init = (\<lambda>_ w. (0, w)),
     sem_post = (\<lambda>w. (0, w)),
     sem_timedwait = (\<lambda>_ w. (0, w)),
     sem_destroy = (\<lambda>w. (0, w)),
     pthread_attr_init = (\<lambda>w. (0, w)),
     pthread_attr_setdetachstate = (\<lambda>w. (0, w)),
     pthread_create = (\<lambda>_ _ w. (0, w)),
     daemon_call = (\<lambda>w. (0, w)),
     open_creat = (\<lambda>_ w. (5, w)),
     lockf_tlock = (\<lambda>_ w. (0, w)),
     ftruncate_0 = (\<lambda>_ w. (0, w)),
     getpid = (\<lambda>w. 4242),
     unlink = (\<lambda>_ w. w),
     umask_call = (\<lambda>_ w. w),
     sigaction_handler = (\<lambda>_ w. w),
     pthread_mutex_init = (\<lambda>w. (0, w)),
     pthread_mutex_destroy = (\<lambda>w. w),
     vsnprintf_s = (\<lambda>m n t. if length t \<le> n then (int (length t), t) else (-1, take n t)),
     syslog = (\<lambda>_ _ w. w),
     openlog = (\<lambda>_ w. w),
     closelog = (\<lambda>w. w)\<rparr>"

lemma ref_ext_securec [simp]: "securec_ok ref_ext"
  by (simp add: securec_ok_def snprintf_s_ok_def sprintf_s_ok_def memset_s_ok_def
      strncpy_s_ok_def strtok_s_ok_def ref_ext_def)

end
