(* ===== verification/Vm.thy ===== *)
theory Vm
  imports Environment
begin

text \<open>
  The data of the daemon: the VM record and the global variables of src/memlink_driver.h, and
  one state record \<open>mstate\<close> that holds the globals of all source files, the VM records on the
  heap, and the external world.

  The list of VMs is the sequence of the addresses linked through \<open>entry\<close>, first element first;
  a VM record is found through \<open>vmheap\<close>, and an address outside it is freed or was never
  allocated. The two mutexes of \<open>g_vmlistHead\<close> are flags: an operation is a section of one
  thread, so that locking a held mutex is a deadlock of that thread with itself
  (\<open>pthread_mutexattr_settype(&attr, 0)\<close>, a normal mutex) and is a fault.
\<close>

section \<open>VM records\<close>

record VmMemoryStats =
  swapIn :: u64
  swapOut :: u64
  majorFault :: u64
  minorFault :: u64
  available :: u64
  unused :: u64
  actualBalloon :: u64
  rss :: u64
  usable :: u64
  lastUpdate :: u64
  lastUpdateOld :: u64

record VMMemParameters =
  autoMem :: u64
  weight :: u64
  memShare :: u64
  hardlimitFromLibvirt :: u64
  softLimit :: u64
  minGuarantee :: u64
  swapHardLimit :: u64

record VirtualMachineInfo =
  vdom :: "nat option"
  domid :: int
  domname :: "string option"
  memory :: int
  currentMem :: int
  reservMem :: u64
  shareMem :: u64
  balanceMem :: u64
  memstat :: VmMemoryStats
  memparam :: VMMemParameters
  enable_fpr :: bool
  state :: int
  balloonTarget :: int
  currentActualBalloon :: "int list"
  ballooning :: bool
  needBalloonFlag :: int
  balloonI :: int
  ballooningDown :: bool
  incompleteBalloon :: bool
  isWindows :: bool
  lockall :: bool
  refcount :: int
  logged :: bool

text \<open>The zeroed memory that \<open>calloc\<close> returns.\<close>

definition zero_stats :: VmMemoryStats where
  "zero_stats = \<lparr>swapIn = 0, swapOut = 0, majorFault = 0, minorFault = 0, available = 0,
     unused = 0, actualBalloon = 0, rss = 0, usable = 0, lastUpdate = 0, lastUpdateOld = 0\<rparr>"

definition zero_params :: VMMemParameters where
  "zero_params = \<lparr>autoMem = 0, weight = 0, memShare = 0, hardlimitFromLibvirt = 0,
     softLimit = 0, minGuarantee = 0, swapHardLimit = 0\<rparr>"

definition zero_vm :: VirtualMachineInfo where
  "zero_vm = \<lparr>vdom = None, domid = 0, domname = None, memory = 0, currentMem = 0,
     reservMem = 0, shareMem = 0, balanceMem = 0, memstat = zero_stats, memparam = zero_params,
     enable_fpr = False, state = 0, balloonTarget = 0, currentActualBalloon = [0, 0],
     ballooning = False, needBalloonFlag = 0, balloonI = 0, ballooningDown = False,
     incompleteBalloon = False, isWindows = False, lockall = False, refcount = 0,
     logged = False\<rparr>"

text \<open>
  The values that the C types of the members allow: the signed members are in the range of their
  type and the array of the last two balloon sizes has its two elements.
\<close>

definition vm_typed :: "VirtualMachineInfo \<Rightarrow> bool" where
  "vm_typed v \<longleftrightarrow> in_s64 (memory v) \<and> in_s64 (currentMem v) \<and>
     in_s64 (balloonTarget v) \<and> in_s32 (needBalloonFlag v) \<and> in_s32 (refcount v) \<and>
     length (currentActualBalloon v) = 2 \<and> (\<forall>b \<in> set (currentActualBalloon v). in_s64 b) \<and>
     (balloonI v = 0 \<or> balloonI v = 1)"

text \<open>
  What the daemon maintains of a VM that is on the list: it has a libvirt handle, a name and a
  reference; the flags of the balloon state machine agree; and the counter that delays the
  inflation stays below \<open>NEED_BALLOON_CHECK_TIMES\<close>.
\<close>

definition balloon_flags_ok :: "VirtualMachineInfo \<Rightarrow> bool" where
  "balloon_flags_ok v \<longleftrightarrow> (ballooningDown v \<longrightarrow> ballooning v) \<and>
     (incompleteBalloon v \<longrightarrow> ballooning v) \<and> 0 \<le> needBalloonFlag v \<and> needBalloonFlag v < 20"

definition vm_ok :: "VirtualMachineInfo \<Rightarrow> bool" where
  "vm_ok v \<longleftrightarrow> vm_typed v \<and> balloon_flags_ok v \<and> vdom v \<noteq> None \<and> domname v \<noteq> None \<and> 1 \<le> refcount v"

section \<open>The global state\<close>

record globals =
  g_hostInfoPollTimeMs :: int
  g_initSemWaitTimeout :: int
  g_balloonEnable :: int
  g_balloonTargetUsedPercent :: int
  g_balloonTargetMaxTotalPercent :: int

definition init_globals :: globals where
  "init_globals = \<lparr>g_hostInfoPollTimeMs = 1000, g_initSemWaitTimeout = 600000,
     g_balloonEnable = 1, g_balloonTargetUsedPercent = 130, g_balloonTargetMaxTotalPercent = 50\<rparr>"

text \<open>One entry of \<open>g_domainEvents\<close>: the event and the id of its registration.\<close>

record DomainEventData =
  event_no :: int
  event_id :: int

record 'w mstate =
  cfg :: globals
  g_libvirtConn :: "nat option"
  g_libvirtChange :: int
  g_stopMemlinkd :: int
  g_domainEvents :: "DomainEventData list"
  domainsListHead :: "addr list"
  count :: int
  requestLock :: bool
  lock :: bool
  vmheap :: "addr \<rightharpoonup> VirtualMachineInfo"
  world :: 'w

definition init_mstate :: "'w \<Rightarrow> 'w mstate" where
  "init_mstate w = \<lparr>cfg = init_globals, g_libvirtConn = None, g_libvirtChange = 0,
     g_stopMemlinkd = 0,
     g_domainEvents = [\<lparr>event_no = VIR_DOMAIN_EVENT_ID_LIFECYCLE, event_id = -1\<rparr>],
     domainsListHead = [], count = 0, requestLock = False, lock = False,
     vmheap = Map.empty, world = w\<rparr>"

section \<open>Mutexes\<close>

text \<open>src/util.c: the wrappers of the pthread mutexes, on the flag of a mutex.\<close>

definition MutexLock :: "bool \<Rightarrow> bool option" where
  "MutexLock m = (if m then None else Some True)"

definition MutexUnlock :: "bool \<Rightarrow> bool option" where
  "MutexUnlock m = (if m then Some False else None)"

definition MutexTryLock :: "bool \<Rightarrow> int \<times> bool" where
  "MutexTryLock m = (if m then (16, True) else (0, True))"

definition lock_vmlist :: "'w mstate \<Rightarrow> 'w mstate option" where
  "lock_vmlist s = do { m \<leftarrow> MutexLock (lock s); Some (s\<lparr>lock := m\<rparr>) }"

definition unlock_vmlist :: "'w mstate \<Rightarrow> 'w mstate option" where
  "unlock_vmlist s = do { m \<leftarrow> MutexUnlock (lock s); Some (s\<lparr>lock := m\<rparr>) }"

definition lock_request :: "'w mstate \<Rightarrow> 'w mstate option" where
  "lock_request s = do { m \<leftarrow> MutexLock (requestLock s); Some (s\<lparr>requestLock := m\<rparr>) }"

definition unlock_request :: "'w mstate \<Rightarrow> 'w mstate option" where
  "unlock_request s = do { m \<leftarrow> MutexUnlock (requestLock s); Some (s\<lparr>requestLock := m\<rparr>) }"

named_theorems mutex "the effect of the mutex wrappers"

lemma lock_vmlist_eq [mutex]: "lock_vmlist s = (if lock s then None else Some (s\<lparr>lock := True\<rparr>))"
  by (simp add: lock_vmlist_def MutexLock_def)

lemma unlock_vmlist_eq [mutex]: "unlock_vmlist s = (if lock s then Some (s\<lparr>lock := False\<rparr>) else None)"
  by (simp add: unlock_vmlist_def MutexUnlock_def)

lemma lock_request_eq [mutex]:
  "lock_request s = (if requestLock s then None else Some (s\<lparr>requestLock := True\<rparr>))"
  by (simp add: lock_request_def MutexLock_def)

lemma unlock_request_eq [mutex]:
  "unlock_request s = (if requestLock s then Some (s\<lparr>requestLock := False\<rparr>) else None)"
  by (simp add: unlock_request_def MutexUnlock_def)

section \<open>Access to a VM record\<close>

definition put_vm :: "addr \<Rightarrow> VirtualMachineInfo \<Rightarrow> 'w mstate \<Rightarrow> 'w mstate" where
  "put_vm a v s = s\<lparr>vmheap := (vmheap s)(a \<mapsto> v)\<rparr>"

text \<open>Run a function on the record at an address and the world.\<close>

definition on_vm ::
    "addr \<Rightarrow> (VirtualMachineInfo \<Rightarrow> 'w \<Rightarrow> (VirtualMachineInfo \<times> 'w) option) \<Rightarrow> 'w mstate \<Rightarrow> 'w mstate option" where
  "on_vm a f s =
     do { v \<leftarrow> vmheap s a;
          (v', w') \<leftarrow> f v (world s);
          Some (s\<lparr>vmheap := (vmheap s)(a \<mapsto> v'), world := w'\<rparr>) }"

text \<open>
  \<open>LIST_FOREACH\<close> with a \<open>break\<close>: the first VM of the list that satisfies the test; the test may
  fault, and so does a dangling link.
\<close>

fun find_vm ::
    "(VirtualMachineInfo \<Rightarrow> bool option) \<Rightarrow> addr list \<Rightarrow> (addr \<rightharpoonup> VirtualMachineInfo) \<Rightarrow> addr option option" where
  "find_vm P [] h = Some None"
| "find_vm P (a # as) h =
     do { v \<leftarrow> h a;
          b \<leftarrow> P v;
          if b then Some (Some a) else find_vm P as h }"

lemma find_vm_total:
  assumes "\<And>a. a \<in> set as \<Longrightarrow> \<exists>v. h a = Some v \<and> P v \<noteq> None"
  shows "\<exists>r. find_vm P as h = Some r"
  using assms
proof (induction as)
  case Nil
  then show ?case by simp
next
  case (Cons a as)
  then obtain v b where "h a = Some v" and "P v = Some b" by fastforce
  with Cons show ?case by simp
qed

lemma find_vm_SomeD:
  "find_vm P as h = Some (Some a) \<Longrightarrow> a \<in> set as \<and> (\<exists>v. h a = Some v \<and> P v = Some True)"
  by (induction as) (auto split: if_splits Option.bind_splits)

lemma find_vm_NoneD:
  "find_vm P as h = Some None \<Longrightarrow> a \<in> set as \<Longrightarrow> \<exists>v. h a = Some v \<and> P v = Some False"
  by (induction as) (auto split: if_splits Option.bind_splits)

end
