(* ===== verification/Libvirt_Vm.thy ===== *)
theory Libvirt_Vm
  imports Vm
begin

text \<open>
  src/libvirt_helper.c: the calls for one VM. A VM pointer that the code tests for \<open>NULL\<close> is an
  \<open>option\<close>, so that the test is a case of the definition; the record it points to is passed and
  returned by value together with the world. Messages to the log are left out: they read
  libvirt's last error and nothing else.
\<close>

definition LookupDomByID :: "'w ext \<Rightarrow> nat option \<Rightarrow> int \<Rightarrow> 'w \<Rightarrow> nat option \<times> 'w" where
  "LookupDomByID E conn did w =
     (case conn of None \<Rightarrow> (None, w) | Some c \<Rightarrow> virDomainLookupByID E c did w)"

definition CheckDomainIsAlive :: "'w ext \<Rightarrow> VirtualMachineInfo option \<Rightarrow> 'w \<Rightarrow> bool \<times> 'w" where
  "CheckDomainIsAlive E vminfo w =
     (case vminfo of
       None \<Rightarrow> (False, w)
     | Some v \<Rightarrow>
        (let (ret, w1) = virDomainIsActive E (vdom v) w;
             ret' = (if ret < 0 then 0 else ret)
         in (ret' \<noteq> 0, w1)))"

text \<open>The text of libvirt's last error. Only messages to the log are made of it.\<close>

definition GetLastErrMsg :: "'w ext \<Rightarrow> 'w \<Rightarrow> string option" where
  "GetLastErrMsg E w =
     (case virGetLastError E w of None \<Rightarrow> None | Some error \<Rightarrow> err_message error)"

definition GetDomainName :: "'w ext \<Rightarrow> VirtualMachineInfo \<Rightarrow> 'w \<Rightarrow> string option \<times> 'w" where
  "GetDomainName E v w = virDomainGetName E (vdom v) w"

text \<open>\<open>memory\<close> and \<open>currentMem\<close> are signed: the casts from \<open>unsigned long\<close> reinterpret.\<close>

definition GetVmInfo ::
    "'w ext \<Rightarrow> VirtualMachineInfo option \<Rightarrow> 'w \<Rightarrow> (int \<times> VirtualMachineInfo option) \<times> 'w" where
  "GetVmInfo E vminfo w =
     (case vminfo of
       None \<Rightarrow> ((-1, None), w)
     | Some v \<Rightarrow>
        (let ((ret, info), w1) = virDomainGetInfo E (vdom v) w
         in if ret < 0 then ((ret, Some v), w1)
            else ((0, Some (v\<lparr>memory := sint (info_maxMem info),
                             currentMem := sint (info_memory info),
                             state := wrap16 (info_state info)\<rparr>)), w1)))"

abbreviation (input) ENABLE_STATS_UPDATE_PERIOD :: int where "ENABLE_STATS_UPDATE_PERIOD \<equiv> 2"
abbreviation (input) DISABLE_STATS_UPDATE_PERIOD :: int where "DISABLE_STATS_UPDATE_PERIOD \<equiv> 0"

definition SetVmMemoryStatsPeriod :: "'w ext \<Rightarrow> VirtualMachineInfo option \<Rightarrow> bool \<Rightarrow> 'w \<Rightarrow> 'w" where
  "SetVmMemoryStatsPeriod E vminfo updateStats w =
     (case vminfo of
       None \<Rightarrow> w
     | Some v \<Rightarrow>
        (let period = (if updateStats then ENABLE_STATS_UPDATE_PERIOD else DISABLE_STATS_UPDATE_PERIOD)
         in snd (virDomainSetMemoryStatsPeriod E (vdom v) period w)))"

text \<open>\<open>memstat\<close> members are written through these updates.\<close>

definition clear_stats :: "VirtualMachineInfo \<Rightarrow> VirtualMachineInfo" where
  "clear_stats v = v\<lparr>memstat := (memstat v)\<lparr>actualBalloon := 0, available := 0, usable := 0,
                                           unused := 0, rss := 0\<rparr>, enable_fpr := False\<rparr>"

abbreviation (input) ENABLED_FPR_FLAG :: u64 where "ENABLED_FPR_FLAG \<equiv> 1"

text \<open>One turn of the loop over the statistics: the \<open>switch\<close> on the tag.\<close>

definition apply_stat :: "vir_stat \<Rightarrow> VirtualMachineInfo \<Rightarrow> VirtualMachineInfo" where
  "apply_stat st v =
     (let m = memstat v in
      if stag st = STAT_ACTUAL_BALLOON then v\<lparr>memstat := m\<lparr>actualBalloon := sval st\<rparr>\<rparr>
      else if stag st = STAT_AVAILABLE then v\<lparr>memstat := m\<lparr>available := sval st\<rparr>\<rparr>
      else if stag st = STAT_USABLE then v\<lparr>memstat := m\<lparr>usable := sval st\<rparr>\<rparr>
      else if stag st = STAT_UNUSED then v\<lparr>memstat := m\<lparr>unused := sval st\<rparr>\<rparr>
      else if stag st = STAT_RSS then v\<lparr>memstat := m\<lparr>rss := sval st\<rparr>\<rparr>
      else if stag st = STAT_DISK_CACHES then
        (if 0 < and (sval st) ENABLED_FPR_FLAG then v\<lparr>enable_fpr := True\<rparr> else v)
      else v)"

text \<open>A count beyond the array that was filled would read past it: a fault.\<close>

definition GetVmMemoryStat ::
    "'w ext \<Rightarrow> VirtualMachineInfo option \<Rightarrow> 'w \<Rightarrow> ((int \<times> VirtualMachineInfo option) \<times> 'w) option" where
  "GetVmMemoryStat E vminfo w =
     (case vminfo of
       None \<Rightarrow> Some ((-1, None), w)
     | Some v \<Rightarrow>
        (case vdom v of
          None \<Rightarrow> Some ((-1, Some v), w)
        | Some d \<Rightarrow>
           (let ((retNrStats, stats), w1) = virDomainMemoryStats E d VIR_DOMAIN_MEMORY_STAT_NR w
            in if retNrStats < 0 then Some ((-1, Some v), w1)
               else if length stats < nat retNrStats then None
               else Some ((0, Some (fold apply_stat (take (nat retNrStats) stats) (clear_stats v))), w1))))"

definition CheckVmMemoryStat :: "VirtualMachineInfo option \<Rightarrow> int" where
  "CheckVmMemoryStat vminfo =
     (case vminfo of
       None \<Rightarrow> -1
     | Some v \<Rightarrow>
        (if actualBalloon (memstat v) = 0 \<or> available (memstat v) = 0 then -1
         else if usable (memstat v) = 0 \<and> unused (memstat v) = 0 then -1
         else 0))"

definition SetVmBalloonTarget :: "'w ext \<Rightarrow> VirtualMachineInfo \<Rightarrow> u64 \<Rightarrow> 'w \<Rightarrow> int \<times> 'w" where
  "SetVmBalloonTarget E v newTarget w = virDomainSetMemoryFlags E (vdom v) newTarget w"

section \<open>What they leave alone\<close>

lemma GetVmInfo_frame:
  assumes "GetVmInfo E (Some v) w = ((ret, Some v'), w')"
  shows "\<exists>m c st. v' = v\<lparr>memory := m, currentMem := c, state := st\<rparr> \<and>
    (in_s64 (memory v) \<longrightarrow> in_s64 m) \<and> (in_s64 (currentMem v) \<longrightarrow> in_s64 c)"
proof (cases "fst (fst (virDomainGetInfo E (vdom v) w)) < 0")
  case True
  with assms have "v' = v" by (auto simp: GetVmInfo_def split: prod.splits)
  then have "v' = v\<lparr>memory := memory v, currentMem := currentMem v, state := state v\<rparr>" by simp
  with \<open>v' = v\<close> show ?thesis by metis
next
  case False
  with assms show ?thesis
    by (auto simp: GetVmInfo_def split: prod.splits intro!: exI)
qed

lemma GetVmInfo_Some: "\<exists>ret v' w'. GetVmInfo E (Some v) w = ((ret, Some v'), w')"
  by (auto simp: GetVmInfo_def split: prod.splits)

lemma CheckVmMemoryStat_iff:
  "CheckVmMemoryStat (Some v) < 0 \<longleftrightarrow>
     actualBalloon (memstat v) = 0 \<or> available (memstat v) = 0 \<or>
     (usable (memstat v) = 0 \<and> unused (memstat v) = 0)"
  by (simp add: CheckVmMemoryStat_def)

end
