(* ===== verification/Util_Proc.thy ===== *)
theory Util_Proc
  imports Environment
begin

text \<open>
  src/util.c: what the daemon reads about a VM's QEMU process. The pid file written by libvirt,
  the command line under \<open>/proc\<close>, the cgroup files, and the predicates \<open>CheckVM\<dots>\<close> that search
  the command line. A returned buffer is the bytes that were read, so that the \<open>count\<close>
  out-parameter is its length.
\<close>

abbreviation (input) PATH_MAX :: nat where "PATH_MAX \<equiv> 4096"
abbreviation (input) PATH_MAX_SIZE :: nat where "PATH_MAX_SIZE \<equiv> 4096"
abbreviation (input) MEMLINK_ARG_MAX :: nat where "MEMLINK_ARG_MAX \<equiv> 13072"
abbreviation (input) MAX_BUF_LEN :: nat where "MAX_BUF_LEN \<equiv> 100"
abbreviation (input) INT_MAX :: int where "INT_MAX \<equiv> 2147483647"
abbreviation (input) INT_MIN :: int where "INT_MIN \<equiv> - 2147483648"

section \<open>Files and pids\<close>

definition GetOneLineFromFile :: "'w ext \<Rightarrow> string \<Rightarrow> nat \<Rightarrow> 'w \<Rightarrow> string option \<times> 'w" where
  "GetOneLineFromFile E filename max_size w =
     (if max_size = 0 then (None, w)
      else case alloc_ok E w of
        (False, w1) \<Rightarrow> (None, w1)
      | (True, w1) \<Rightarrow>
         (case realpath E filename w1 of
           (None, w2) \<Rightarrow> (None, w2)
         | (Some canonicalPath, w2) \<Rightarrow>
            (case read_file E canonicalPath w2 of
              (None, w3) \<Rightarrow> (None, w3)
            | (Some bytes, w3) \<Rightarrow>
               (let line = take (max_size - 1) bytes
                in if length line = 0 then (None, w3) else (Some line, w3)))))"

definition QEMU_PID_DIR :: string where
  "QEMU_PID_DIR = ''/var/run/libvirt/qemu/''"

text \<open>
  The number is converted to a C \<open>int\<close> before it is compared with the range of \<open>int\<close>, and
  \<open>errno\<close> is not cleared before \<open>strtol\<close>.
\<close>

definition GetQEMUPidByVMName :: "'w ext \<Rightarrow> string option \<Rightarrow> 'w \<Rightarrow> int \<times> 'w" where
  "GetQEMUPidByVMName E vmName w =
     (case vmName of
       None \<Rightarrow> (-1, w)
     | Some name \<Rightarrow>
        (let (rc, pidFilePath) = snprintf_s E PATH_MAX (PATH_MAX - 1) (QEMU_PID_DIR @ name @ ''.pid'')
         in if rc < 0 then (-1, w)
            else case GetOneLineFromFile E pidFilePath 64 w of
              (None, w1) \<Rightarrow> (-1, w1)
            | (Some buf, w1) \<Rightarrow>
               (if PATH_MAX \<le> length buf \<or> length buf = 0 then (-1, w1)
                else if list_ex (\<lambda>c. \<not> isdigit c) (cstr buf) then (-1, w1)
                else
                  let (v, endptr, range) = strtol10 (cstr buf);
                      w2 = (if range then set_errno E ERANGE w1 else w1);
                      pid = wrap32 v
                  in if endptr \<noteq> [] then (-1, w2)
                     else if get_errno E w2 = ERANGE then (-1, w2)
                     else if pid < INT_MIN \<or> INT_MAX < pid then (-1, w2)
                     else (pid, w2))))"

section \<open>Cgroup files\<close>

definition GetProcCgroupPath :: "'w ext \<Rightarrow> string option \<Rightarrow> 'w \<Rightarrow> (int \<times> string) \<times> 'w" where
  "GetProcCgroupPath E vmName w =
     (case GetQEMUPidByVMName E vmName w of (pid, w1) \<Rightarrow>
        if pid < 0 then ((-1, []), w1)
        else
          let (rc, p) = snprintf_s E PATH_MAX_SIZE (PATH_MAX_SIZE - 1)
                          (''/proc/'' @ show_int pid @ ''/cgroup'')
          in if rc \<le> 0 then ((-1, p), w1) else ((0, p), w1))"

text \<open>The tokens after the first one, which the caller drops: \<open>strtok_s(NULL, ":", \<dots>)\<close>.\<close>

definition next_token :: "'w ext \<Rightarrow> string \<Rightarrow> string option \<times> string" where
  "next_token E ctx = (case strtok_s E ctx '':'' of None \<Rightarrow> (None, []) | Some (t, r) \<Rightarrow> (Some t, r))"

text \<open>
  The loop over the lines of \<open>/proc/<pid>/cgroup\<close> up to the one of the memory controller:
  \<open>None\<close> when a read or a token fails, else the rest of the line for the next token.
\<close>

function find_memory_line :: "'w ext \<Rightarrow> string \<Rightarrow> string option" where
  "find_memory_line E bytes =
     (case fgets PATH_MAX_SIZE bytes of
       None \<Rightarrow> None
     | Some (controller, rest) \<Rightarrow>
        (let (_, ctx) = next_token E (cstr controller);
             (token, ctx') = next_token E ctx
         in case token of
              None \<Rightarrow> None
            | Some t \<Rightarrow> (if t = ''memory'' then Some ctx' else find_memory_line E rest)))"
  by pat_completeness auto
termination
  by (relation "measure (\<lambda>(E, bytes). length bytes)") (auto dest: fgets_shorter [rotated])

declare find_memory_line.simps [simp del]

definition CGROUP_MEMORY_DIR :: string where
  "CGROUP_MEMORY_DIR = ''/sys/fs/cgroup/memory''"

definition GetCgroupFilePath ::
    "'w ext \<Rightarrow> string option \<Rightarrow> string \<Rightarrow> 'w \<Rightarrow> (int \<times> string) \<times> 'w" where
  "GetCgroupFilePath E vmName typ w =
     (case GetProcCgroupPath E vmName w of ((rc, procCgroupPath), w1) \<Rightarrow>
        if rc < 0 then ((-1, []), w1)
        else case read_file E procCgroupPath w1 of
          (None, w2) \<Rightarrow> ((-1, []), w2)
        | (Some bytes, w2) \<Rightarrow>
           (case find_memory_line E bytes of
             None \<Rightarrow> ((-1, []), w2)
           | Some ctx \<Rightarrow>
              (case fst (next_token E ctx) of
                None \<Rightarrow> ((-1, []), w2)
              | Some token \<Rightarrow>
                 (let (rc', p) = snprintf_s E PATH_MAX_SIZE (PATH_MAX_SIZE - 1)
                        (CGROUP_MEMORY_DIR @ butlast token @ ''/memory.'' @ typ @ ''_in_bytes'')
                  in if rc' \<le> 0 then ((-1, p), w2) else ((0, p), w2)))))"

text \<open>
  The second pointer is the variable it points to: its old value is passed and its new one returned,
  \<open>None\<close> for a null pointer.
\<close>

definition ReadCgroupPathU64 ::
    "'w ext \<Rightarrow> string option \<Rightarrow> u64 option \<Rightarrow> 'w \<Rightarrow> (int \<times> u64 option) \<times> 'w" where
  "ReadCgroupPathU64 E path val w =
     (case (path, val) of
       (Some p, Some _) \<Rightarrow>
        (case realpath E p w of
          (None, w1) \<Rightarrow> ((-1, val), w1)
        | (Some canonicalPath, w1) \<Rightarrow>
           (case read_file E canonicalPath w1 of
             (None, w2) \<Rightarrow> ((-1, val), w2)
           | (Some bytes, w2) \<Rightarrow>
              (let (size, v) = fscanf_s_llu E bytes
               in if size \<le> 0 then ((-1, val), w2) else ((0, Some v), w2))))
     | _ \<Rightarrow> ((-1, val), w))"

definition GetQEMUMemoryUsage ::
    "'w ext \<Rightarrow> string option \<Rightarrow> u64 option \<Rightarrow> 'w \<Rightarrow> (int \<times> u64 option) \<times> 'w" where
  "GetQEMUMemoryUsage E vmName usage w =
     (case alloc_ok E w of
       (False, w1) \<Rightarrow> ((-1, usage), w1)
     | (True, w1) \<Rightarrow>
        (if memset_s E PATH_MAX_SIZE PATH_MAX_SIZE \<noteq> 0 then ((-1, usage), w1)
         else case GetCgroupFilePath E vmName ''usage'' w1 of ((rc, usagePath), w2) \<Rightarrow>
           if rc < 0 then ((-1, usage), w2)
           else case ReadCgroupPathU64 E (Some usagePath) usage w2 of ((rc', v), w3) \<Rightarrow>
             if rc' < 0 then ((-1, v), w3)
             else ((0, map_option (drop_bit 10) v), w3)))"

definition CopyString :: "'w ext \<Rightarrow> string option \<Rightarrow> 'w \<Rightarrow> (int \<times> string option) \<times> 'w" where
  "CopyString E src w =
     (case src of
       None \<Rightarrow> ((-1, None), w)
     | Some t \<Rightarrow> (case alloc_ok E w of
         (False, w1) \<Rightarrow> ((-1, None), w1)
       | (True, w1) \<Rightarrow> ((1, Some t), w1)))"

section \<open>Searching the command line\<close>

text \<open>
  The inner loop: \<open>n\<close> bytes are left from \<open>ptr\<close> on; each C string found there is searched
  for the token. The buffer is followed by a zero byte.
\<close>

function scan_args :: "nat \<Rightarrow> string \<Rightarrow> string \<Rightarrow> bool" where
  "scan_args n ptr token =
     (if n = 0 then False
      else let len = length (cstr ptr)
           in if len = 0 then scan_args (n - 1) (drop 1 ptr) token
              else if strstr (cstr ptr) token \<noteq> None then True
              else scan_args (n - len) (drop len ptr) token)"
  by pat_completeness auto
termination
  by (relation "measure (\<lambda>(n, ptr, token). n)") auto

declare scan_args.simps [simp del]

text \<open>The loop over the tokens: \<open>None\<close> would be a \<open>strtok_s\<close> that never ends.\<close>

partial_function (option) token_loop ::
    "'w ext \<Rightarrow> string \<Rightarrow> nat \<Rightarrow> string \<Rightarrow> int option" where
  "token_loop E strLine n ctx =
     (case strtok_s E ctx '':'' of
       None \<Rightarrow> Some 0
     | Some (token, ctx') \<Rightarrow>
        (if scan_args n strLine token then Some 1 else token_loop E strLine n ctx'))"

definition ContainOneOfTokens :: "'w ext \<Rightarrow> string \<Rightarrow> nat \<Rightarrow> string \<Rightarrow> int option" where
  "ContainOneOfTokens E strLine n tokens = token_loop E strLine n tokens"

definition CheckString :: "'w ext \<Rightarrow> string option \<Rightarrow> string \<Rightarrow> 'w \<Rightarrow> (int \<times> 'w) option" where
  "CheckString E vmName str w =
     (case GetQEMUPidByVMName E vmName w of (pid, w1) \<Rightarrow>
        if pid \<le> 0 then Some (-1, w1)
        else
          let (rc, processProc) = sprintf_s E PATH_MAX (''/proc/'' @ show_int pid @ ''/cmdline'')
          in if rc < 0 then Some (-1, w1)
             else case GetOneLineFromFile E processProc MEMLINK_ARG_MAX w1 of
               (None, w2) \<Rightarrow> Some (-1, w2)
             | (Some strLine, w2) \<Rightarrow>
                (if MAX_BUF_LEN \<le> length str then Some (-1, w2)
                 else
                   let (rc', buf) = strncpy_s E MAX_BUF_LEN str (length str)
                   in if rc' \<noteq> 0 then Some (-1, w2)
                      else do { ret \<leftarrow> ContainOneOfTokens E strLine (length strLine) buf;
                                Some (ret, w2) }))"

definition CheckVMHasPassthroughDev :: "'w ext \<Rightarrow> string option \<Rightarrow> 'w \<Rightarrow> (int \<times> 'w) option" where
  "CheckVMHasPassthroughDev E vmName w = CheckString E vmName ''vfio-pci:pci-assign'' w"

definition CheckVMHasHugePage :: "'w ext \<Rightarrow> string option \<Rightarrow> 'w \<Rightarrow> (int \<times> 'w) option" where
  "CheckVMHasHugePage E vmName w = CheckString E vmName ''prealloc'' w"

definition CheckVMIsWindows :: "'w ext \<Rightarrow> string option \<Rightarrow> 'w \<Rightarrow> (int \<times> 'w) option" where
  "CheckVMIsWindows E vmName w = CheckString E vmName ''hv_relaxed'' w"

section \<open>Correctness of the command line search\<close>

text \<open>An occurrence of a text without NULs does not span two C strings of a buffer.\<close>

lemma infix_split:
  assumes "NUL \<notin> set t" and "NUL \<notin> set seg" and "rest = [] \<or> hd rest = NUL"
  shows "(\<exists>p q. seg @ rest = p @ t @ q) \<longleftrightarrow> (\<exists>p q. seg = p @ t @ q) \<or> (\<exists>p q. rest = p @ t @ q)"
proof
  assume "\<exists>p q. seg @ rest = p @ t @ q"
  then obtain p q where e: "seg @ rest = p @ (t @ q)" by blast
  from e consider us where "seg @ us = p" "rest = us @ t @ q" | us where "seg = p @ us" "us @ rest = t @ q"
    unfolding append_eq_append_conv2 by blast
  then show "(\<exists>p q. seg = p @ t @ q) \<or> (\<exists>p q. rest = p @ t @ q)"
  proof cases
    case 1
    then show ?thesis by blast
  next
    case (2 us)
    from 2(2) consider vs where "us @ vs = t" "rest = vs @ q" | vs where "us = t @ vs" "vs @ rest = q"
      unfolding append_eq_append_conv2 by blast
    then show ?thesis
    proof cases
      case (1 vs)
      have "vs = []"
        using 1 assms(1,3) by (cases vs) auto
      with 1 2 have "seg = p @ t @ []" by simp
      then show ?thesis by blast
    next
      case (2 vs)
      with \<open>seg = p @ us\<close> show ?thesis by auto
    qed
  qed
next
  assume "(\<exists>p q. seg = p @ t @ q) \<or> (\<exists>p q. rest = p @ t @ q)"
  then show "\<exists>p q. seg @ rest = p @ t @ q"
    by (metis append.assoc)
qed

lemma scan_args_iff:
  assumes "NUL \<notin> set t" and "t \<noteq> []"
  shows "scan_args (length ptr) ptr t \<longleftrightarrow> (\<exists>p q. ptr = p @ t @ q)"
  using assms
proof (induction "length ptr" ptr t rule: scan_args.induct)
  case (1 ptr t)
  let ?seg = "cstr ptr" and ?rest = "drop (length (cstr ptr)) ptr"
  have split: "ptr = ?seg @ ?rest" and rest: "?rest = [] \<or> hd ?rest = NUL"
    using hd_dropWhile [of "\<lambda>c. c \<noteq> NUL" ptr]
    by (auto simp: cstr_def dropWhile_eq_drop [symmetric])
  note unfold = scan_args.simps [of "length ptr" ptr t]
  consider (empty) "ptr = []" | (nul) r where "ptr = NUL # r" | (seg) "ptr \<noteq> []" "?seg \<noteq> []"
    by (cases ptr; cases "hd ptr = NUL") (auto simp: cstr_def)
  then show ?case
  proof cases
    case empty
    with 1 show ?thesis by (subst unfold) simp
  next
    case nul
    then have "cstr ptr = []" by (simp add: cstr_def)
    with nul 1 have "scan_args (length ptr) ptr t \<longleftrightarrow> (\<exists>p q. r = p @ t @ q)"
      by (subst unfold) (simp add: cstr_def)
    moreover have "(\<exists>p q. ptr = p @ t @ q) \<longleftrightarrow> (\<exists>p q. r = p @ t @ q)"
      using infix_split [of t "[NUL]" r] nul 1(3,4)
      by (auto simp: Cons_eq_append_conv)
    ultimately show ?thesis by simp
  next
    case seg
    then have "scan_args (length ptr) ptr t \<longleftrightarrow>
        strstr ?seg t \<noteq> None \<or> scan_args (length ?rest) ?rest t"
      by (subst unfold) (auto simp: Let_def)
    moreover have "scan_args (length ?rest) ?rest t \<longleftrightarrow> (\<exists>p q. ?rest = p @ t @ q)"
      if "strstr ?seg t = None"
      using 1(2) seg that 1(3,4) by simp
    ultimately have "scan_args (length ptr) ptr t \<longleftrightarrow>
        (\<exists>p q. ?seg = p @ t @ q) \<or> (\<exists>p q. ?rest = p @ t @ q)"
      using strstr_iff [of ?seg t] by auto
    then show ?thesis
      using infix_split [OF 1(3) NUL_notin_cstr [of ptr] rest, unfolded split [symmetric]] by simp
  qed
qed

lemma strtok_s_None:
  assumes "strtok_s_ok E" and "strtok_s E s [d] = None"
  shows "sep_fields d s = []"
proof -
  from assms have "dropWhile (\<lambda>c. c = d) s = []"
    unfolding strtok_s_ok_def by (simp add: Let_def split: if_splits)
  with sep_fields_dropWhile [of d s] show ?thesis by (simp add: sep_fields_def)
qed

lemma strtok_s_Some:
  assumes "strtok_s_ok E" and "strtok_s E s [d] = Some (t, r)"
  shows "sep_fields d s = t # sep_fields d r" and "length r < length s"
    and "t \<noteq> []" and "set t \<subseteq> set s" and "set r \<subseteq> set s"
proof -
  let ?s1 = "dropWhile (\<lambda>c. c = d) s"
  from assms have *: "?s1 \<noteq> []" "t = takeWhile (\<lambda>c. c \<noteq> d) ?s1" "r = drop (Suc (length t)) ?s1"
    by (auto simp: strtok_s_ok_def Let_def split: if_splits)
  show "sep_fields d s = t # sep_fields d r"
    using sep_fields_token [OF refl *(1,2)] *(3) by simp
  have le: "length ?s1 \<le> length s" by (rule length_dropWhile_le)
  moreover have "0 < length ?s1" using *(1) by simp
  moreover have "length r = length ?s1 - Suc (length t)" unfolding *(3) by simp
  ultimately show "length r < length s" by linarith
  have "hd ?s1 \<noteq> d" using *(1) hd_dropWhile [of "\<lambda>c. c = d" s] by simp
  then show "t \<noteq> []" using *(1,2) by (cases ?s1) auto
  show "set t \<subseteq> set s" using *(2) by (auto dest!: set_takeWhileD set_dropWhileD)
  show "set r \<subseteq> set s" using *(3) by (auto dest!: in_set_dropD set_dropWhileD)
qed

lemma token_loop_total:
  assumes "strtok_s_ok E"
  shows "\<exists>r. token_loop E strLine n ctx = Some r"
proof (induction "length ctx" arbitrary: ctx rule: less_induct)
  case less
  show ?case
  proof (cases "strtok_s E ctx '':''")
    case None
    then show ?thesis by (simp add: token_loop.simps)
  next
    case (Some tr)
    then obtain t r where tr: "strtok_s E ctx '':'' = Some (t, r)" by (cases tr) auto
    from less.hyps [OF strtok_s_Some(2) [OF assms tr]]
    show ?thesis by (subst token_loop.simps) (simp add: tr)
  qed
qed

lemma CheckString_total:
  assumes "strtok_s_ok E"
  shows "\<exists>r w'. CheckString E vm str w = Some (r, w')"
  using token_loop_total [OF assms]
  by (auto simp: CheckString_def ContainOneOfTokens_def Let_def split: prod.splits option.splits)
     (metis Option.bind_lunit option.distinct(1))?

lemma token_loop_fields:
  assumes "strtok_s_ok E" and "NUL \<notin> set ctx"
  shows "token_loop E strLine (length strLine) ctx =
    Some (if \<exists>t \<in> set (sep_fields CHR '':'' ctx). \<exists>p q. strLine = p @ t @ q then 1 else 0)"
  using assms(2)
proof (induction "length ctx" arbitrary: ctx rule: less_induct)
  case less
  show ?case
  proof (cases "strtok_s E ctx '':''")
    case None
    with strtok_s_None [OF assms(1) None] show ?thesis
      by (simp add: token_loop.simps)
  next
    case (Some tr)
    then obtain t r where tr: "strtok_s E ctx '':'' = Some (t, r)" by (cases tr) auto
    note f = strtok_s_Some [OF assms(1) tr]
    have nul: "NUL \<notin> set t" "NUL \<notin> set r" using f(4,5) less.prems by auto
    note IH = less.hyps [OF f(2) nul(2)]
    show ?thesis
      by (subst token_loop.simps)
         (simp add: tr IH f(1) scan_args_iff [OF nul(1) f(3)])
  qed
qed

text \<open>
  A pid file that holds a decimal number \<open>n\<close> of at most 63 digits, read with a clean \<open>errno\<close>,
  gives the number converted to a 32-bit \<open>int\<close>: a number beyond \<open>INT_MAX\<close> is not refused but
  wraps, since the range check sees the converted value.
\<close>

theorem GetQEMUPidByVMName_value:
  assumes "snprintf_s_ok E" and "length name \<le> 4000"
    and "GetOneLineFromFile E (QEMU_PID_DIR @ name @ ''.pid'') 64 w = (Some (show_nat n), w1)"
    and "int n \<le> LONG_MAX" and "get_errno E w1 \<noteq> ERANGE"
  shows "GetQEMUPidByVMName E (Some name) w = (wrap32 (int n), w1)"
proof -
  let ?p = "QEMU_PID_DIR @ name @ ''.pid''"
  have len: "length ?p \<le> 4095" using assms(2) by (simp add: QEMU_PID_DIR_def)
  have s64: "in_s64 (int n)" using assms(4) by (simp add: in_s64_def LONG_MAX_def)
  have dig: "\<forall>c \<in> set (show_nat n). isdigit c" using show_nat_digits by blast
  then have "NUL \<notin> set (show_nat n)" using isdigit_props(1) by metis
  then have c: "cstr (show_nat n) = show_nat n" by (rule cstr_id)
  have "length (show_nat n) \<le> 19"
    using length_show_nat [of n 18] assms(4) by (simp add: LONG_MAX_def)
  moreover have "strtol10 (show_nat n) = (int n, [], False)"
    using strtol10_show_int [OF s64] by (simp add: show_int_def)
  moreover have "\<not> list_ex (\<lambda>c. \<not> isdigit c) (show_nat n)"
    using dig by (simp add: list_ex_iff)
  moreover have "INT_MIN \<le> wrap32 (int n) \<and> wrap32 (int n) \<le> INT_MAX"
    using wrap32_in_s32 [of "int n"] by (auto simp: in_s32_def)
  ultimately show ?thesis
    using assms(3,5) snprintf_s_fits [OF assms(1) _ len, of PATH_MAX]
    by (simp add: GetQEMUPidByVMName_def c)
qed

lemma GetQEMUPidByVMName_range: "GetQEMUPidByVMName E vm w = (pid, w1) \<Longrightarrow> in_s32 pid"
  by (auto simp: GetQEMUPidByVMName_def Let_def in_s32_def
      split: option.splits prod.splits if_splits)

definition pid_env :: "string \<Rightarrow> ref_world ext" where
  "pid_env txt = ref_ext\<lparr>read_file := (\<lambda>p w. (Some txt, w))\<rparr>"

theorem GetQEMUPidByVMName_value_witness:
  "GetQEMUPidByVMName (pid_env (show_nat 4294967297)) (Some ''vm'') (0, []) = (1, (0, []))"
proof -
  let ?E = "pid_env (show_nat 4294967297)"
  have s: "snprintf_s_ok ?E" using ref_ext_securec
    by (simp add: securec_ok_def snprintf_s_ok_def pid_env_def)
  have "length (show_nat 4294967297) \<le> 63" using length_show_nat [of 4294967297 18] by simp
  then have l: "GetOneLineFromFile ?E (QEMU_PID_DIR @ ''vm'' @ ''.pid'') 64 (0, []) =
      (Some (show_nat 4294967297), (0, []))"
    by (simp add: GetOneLineFromFile_def pid_env_def ref_ext_def)
  show ?thesis
    using GetQEMUPidByVMName_value [OF s _ l]
    by (simp add: LONG_MAX_def ERANGE_def pid_env_def ref_ext_def wrap32_def)
qed

text \<open>
  C38: The command line predicates. Once the pid and the command line have been read, the answer
  is 1 exactly when one of the \<open>:\<close>-separated tokens occurs in the bytes of the command line, and 0
  otherwise; the search always ends.
\<close>

theorem CheckString_answer:
  assumes "securec_ok E" and "GetQEMUPidByVMName E vm w = (pid, w1)" and "0 < pid"
    and "GetOneLineFromFile E (''/proc/'' @ show_int pid @ ''/cmdline'') MEMLINK_ARG_MAX w1 =
      (Some line, w2)"
    and "length str < MAX_BUF_LEN" and "NUL \<notin> set str"
  shows "CheckString E vm str w =
    Some (if \<exists>t \<in> set (sep_fields CHR '':'' str). \<exists>p q. line = p @ t @ q then 1 else 0, w2)"
proof -
  note sc = securec_okD [OF assms(1)]
  have "length (show_int pid) \<le> 11"
    using GetQEMUPidByVMName_range [OF assms(2)] by (rule length_show_int)
  then have "sprintf_s E PATH_MAX (''/proc/'' @ show_int pid @ ''/cmdline'') =
      (int (length (''/proc/'' @ show_int pid @ ''/cmdline'')), ''/proc/'' @ show_int pid @ ''/cmdline'')"
    by (intro sprintf_s_fits [OF sc(2)]) simp
  with assms(2-5) show ?thesis
    by (simp add: CheckString_def strncpy_s_fits [OF sc(4)] ContainOneOfTokens_def
        token_loop_fields [OF sc(5) assms(6)])
qed

definition proc_env :: "string \<Rightarrow> string \<Rightarrow> ref_world ext" where
  "proc_env pidtxt cmdline = ref_ext\<lparr>read_file := (\<lambda>p w.
     (Some (if p = QEMU_PID_DIR @ ''vm.pid'' then pidtxt else cmdline), w))\<rparr>"

lemma proc_env_securec [simp]: "securec_ok (proc_env p c)"
  using ref_ext_securec
  by (simp add: proc_env_def securec_ok_def snprintf_s_ok_def sprintf_s_ok_def memset_s_ok_def
      strncpy_s_ok_def strtok_s_ok_def)

lemma proc_env_pid:
  "GetQEMUPidByVMName (proc_env ''42'' c) (Some ''vm'') (0, []) = (42, (0, []))"
  by (simp add: GetQEMUPidByVMName_def GetOneLineFromFile_def proc_env_def ref_ext_def
      QEMU_PID_DIR_def cstr_def NUL_def isdigit_def isspace_def byte_def strtol10_def
      digits_val_def LONG_MAX_def LONG_MIN_def ERANGE_def wrap32_def)

theorem CheckString_answer_witness:
  "CheckVMHasHugePage (proc_env ''42'' (''qemu'' @ [NUL] @ ''-mem-prealloc'' @ [NUL])) (Some ''vm'') (0, [])
     = Some (1, (0, []))"
proof -
  let ?c = "''qemu'' @ [NUL] @ ''-mem-prealloc'' @ [NUL]"
  have n: "show_int 42 = ''42''"
    by code_simp
  have l: "GetOneLineFromFile (proc_env ''42'' ?c) (''/proc/'' @ show_int 42 @ ''/cmdline'')
      MEMLINK_ARG_MAX (0, []) = (Some ?c, (0, []))"
    by (simp add: GetOneLineFromFile_def proc_env_def ref_ext_def QEMU_PID_DIR_def n)
  have "sep_fields CHR '':'' ''prealloc'' = [''prealloc'']"
    by (simp add: sep_fields_def)
  moreover have "?c = (''qemu'' @ [NUL] @ ''-mem-'') @ ''prealloc'' @ [NUL]" by simp
  ultimately have "\<exists>t \<in> set (sep_fields CHR '':'' ''prealloc''). \<exists>p q. ?c = p @ t @ q"
    by (metis list.set_intros(1))
  then show ?thesis
    using CheckString_answer [OF proc_env_securec proc_env_pid _ l, of "''prealloc''"]
    by (simp add: CheckVMHasHugePage_def NUL_def)
qed

end
