(* ===== verification/Vmlist.thy ===== *)
theory Vmlist
  imports Libvirt_Vm Util_Proc
begin

text \<open>
  src/memlink_driver.c, first half: the list of VMs, its reference counts and its lock.
  Operations, then the list invariant and its preservation, then the abstract registry of
  (domain id, name) pairs that the list implements.
\<close>

section \<open>Operations\<close>

definition NewVM :: "'w ext \<Rightarrow> int \<Rightarrow> 'w mstate \<Rightarrow> addr option \<times> 'w mstate" where
  "NewVM E did s =
     (case calloc_vm E (\<lambda>a. vmheap s a \<noteq> None) (world s) of
       (None, w) \<Rightarrow> (None, s\<lparr>world := w\<rparr>)
     | (Some a, w) \<Rightarrow>
        (Some a, put_vm a (zero_vm\<lparr>domid := did, ballooning := False, incompleteBalloon := False,
                                  needBalloonFlag := 1, logged := False, refcount := 1,
                                  lockall := False, currentActualBalloon := [0, 0],
                                  balloonI := 0, ballooningDown := False\<rparr>)
                 (s\<lparr>world := w\<rparr>)))"

definition FreeVM :: "'w ext \<Rightarrow> addr option \<Rightarrow> 'w mstate \<Rightarrow> 'w mstate option" where
  "FreeVM E vminfo s =
     (case vminfo of
       None \<Rightarrow> Some s
     | Some a \<Rightarrow>
        do { v \<leftarrow> vmheap s a;
             let w = (case vdom v of None \<Rightarrow> world s | Some d \<Rightarrow> virDomainFree E d (world s));
             Some (s\<lparr>vmheap := (vmheap s)(a := None), world := w\<rparr>) })"

text \<open>\<open>LIST_REMOVE\<close> of an element that is not linked would write through a stray pointer.\<close>

definition DeleteVMFromList :: "'w ext \<Rightarrow> addr \<Rightarrow> 'w mstate \<Rightarrow> 'w mstate option" where
  "DeleteVMFromList E a s =
     (if a \<notin> set (domainsListHead s) then None
      else do { c \<leftarrow> ck32 (count s - 1);
                FreeVM E (Some a) (s\<lparr>domainsListHead := remove1 a (domainsListHead s), count := c\<rparr>) })"

definition VMInfoRef :: "addr \<Rightarrow> 'w mstate \<Rightarrow> 'w mstate option" where
  "VMInfoRef a s =
     do { v \<leftarrow> vmheap s a;
          Some (put_vm a (v\<lparr>refcount := wrap32 (refcount v + 1)\<rparr>) s) }"

definition VMInfoUnref :: "'w ext \<Rightarrow> addr \<Rightarrow> 'w mstate \<Rightarrow> 'w mstate option" where
  "VMInfoUnref E a s =
     do { v \<leftarrow> vmheap s a;
          let r = wrap32 (refcount v - 1);
          let s1 = put_vm a (v\<lparr>refcount := r\<rparr>) s;
          if r = 0 then DeleteVMFromList E a s1 else Some s1 }"

text \<open>The loop reads the next element before it drops the reference.\<close>

definition FreeAllVM :: "'w ext \<Rightarrow> 'w mstate \<Rightarrow> 'w mstate option" where
  "FreeAllVM E s =
     do { s1 \<leftarrow> lock_vmlist s;
          s2 \<leftarrow> foreach (VMInfoUnref E) (domainsListHead s1) s1;
          unlock_vmlist s2 }"

definition UpdateVmInfo ::
    "'w ext \<Rightarrow> VirtualMachineInfo \<Rightarrow> 'w \<Rightarrow> (int \<times> VirtualMachineInfo) \<times> 'w" where
  "UpdateVmInfo E v w =
     (case GetVmInfo E (Some v) w of ((ret, v'), w1) \<Rightarrow>
        ((if ret < 0 then -1 else 0, case v' of None \<Rightarrow> v | Some x \<Rightarrow> x), w1))"

text \<open>The result is the return value with the record as the function leaves it.\<close>

definition InitAndCheckVM ::
    "'w ext \<Rightarrow> nat option \<Rightarrow> globals \<Rightarrow> VirtualMachineInfo \<Rightarrow> 'w \<Rightarrow> ((int \<times> VirtualMachineInfo) \<times> 'w) option" where
  "InitAndCheckVM E conn g v w =
     (let (d, w1) = LookupDomByID E conn (domid v) w;
          v1 = v\<lparr>vdom := d\<rparr>
      in if d = None then Some ((-1, v1), w1)
         else
           let (name, w2) = GetDomainName E v1 w1
           in if name = None then Some ((-1, v1), w2)
              else
                let ((rc, nm), w3) = CopyString E name w2;
                    v2 = v1\<lparr>domname := nm\<rparr>
                in if rc < 0 then Some ((-1, v2), w3)
                   else do {
                     (hp, w4) \<leftarrow> CheckVMHasHugePage E (domname v2) w3;
                     if 0 < hp then Some ((-1, v2), w4)
                     else do {
                       (win, w5) \<leftarrow> CheckVMIsWindows E (domname v2) w4;
                       let v3 = (if 0 \<le> win then v2\<lparr>isWindows := (win \<noteq> 0)\<rparr> else v2);
                       let ((ret, v4), w6) = UpdateVmInfo E v3 w5;
                       if ret < 0 then Some ((-1, v4), w6)
                       else
                         let w7 = (if g_balloonEnable g = 1
                                   then SetVmMemoryStatsPeriod E (Some v4) True w6 else w6)
                         in Some ((0, v4), w7) } })"

definition FindAddVMToList :: "'w ext \<Rightarrow> int \<Rightarrow> 'w mstate \<Rightarrow> 'w mstate option" where
  "FindAddVMToList E did s =
     do { s1 \<leftarrow> lock_vmlist s;
          found \<leftarrow> find_vm (\<lambda>v. Some (domid v = did)) (domainsListHead s1) (vmheap s1);
          case found of
            Some _ \<Rightarrow> unlock_vmlist s1
          | None \<Rightarrow>
             (case NewVM E did s1 of
               (None, s2) \<Rightarrow> unlock_vmlist s2
             | (Some a, s2) \<Rightarrow>
                do { v \<leftarrow> vmheap s2 a;
                     ((rc, v'), w) \<leftarrow> InitAndCheckVM E (g_libvirtConn s2) (cfg s2) v (world s2);
                     let s3 = (put_vm a v' s2)\<lparr>world := w\<rparr>;
                     if rc \<noteq> 0 then do { s4 \<leftarrow> FreeVM E (Some a) s3; unlock_vmlist s4 }
                     else do { c \<leftarrow> ck32 (count s3 + 1);
                               unlock_vmlist (s3\<lparr>domainsListHead := a # domainsListHead s3,
                                                count := c\<rparr>) } }) }"

definition FindDeleteVMFromList :: "'w ext \<Rightarrow> string \<Rightarrow> 'w mstate \<Rightarrow> 'w mstate option" where
  "FindDeleteVMFromList E name s =
     do { s1 \<leftarrow> lock_vmlist s;
          found \<leftarrow> find_vm (\<lambda>v. map_option (\<lambda>n. n = name) (domname v)) (domainsListHead s1) (vmheap s1);
          s2 \<leftarrow> (case found of None \<Rightarrow> Some s1 | Some a \<Rightarrow> VMInfoUnref E a s1);
          unlock_vmlist s2 }"

definition GetRefVMInfoByDomid :: "int \<Rightarrow> 'w mstate \<Rightarrow> (addr option \<times> 'w mstate) option" where
  "GetRefVMInfoByDomid did s =
     do { s1 \<leftarrow> lock_vmlist s;
          found \<leftarrow> find_vm (\<lambda>v. Some (domid v = did)) (domainsListHead s1) (vmheap s1);
          s2 \<leftarrow> (case found of None \<Rightarrow> Some s1 | Some a \<Rightarrow> VMInfoRef a s1);
          s3 \<leftarrow> unlock_vmlist s2;
          Some (found, s3) }"

definition PutUnrefVMInfo :: "'w ext \<Rightarrow> addr option \<Rightarrow> 'w mstate \<Rightarrow> 'w mstate option" where
  "PutUnrefVMInfo E vminfo s =
     (case vminfo of
       None \<Rightarrow> Some s
     | Some a \<Rightarrow> do { s1 \<leftarrow> lock_vmlist s; s2 \<leftarrow> VMInfoUnref E a s1; unlock_vmlist s2 })"

text \<open>\<open>LIST_FOREACH\<close> over all VMs with a body that works on one record.\<close>

definition sweep ::
    "(VirtualMachineInfo \<Rightarrow> 'w \<Rightarrow> (VirtualMachineInfo \<times> 'w) option) \<Rightarrow> 'w mstate \<Rightarrow> 'w mstate option" where
  "sweep f s = foreach (\<lambda>a. on_vm a f) (domainsListHead s) s"

definition UpdateAllVmInfo :: "'w ext \<Rightarrow> 'w mstate \<Rightarrow> 'w mstate option" where
  "UpdateAllVmInfo E s =
     do { s1 \<leftarrow> lock_vmlist s;
          s2 \<leftarrow> sweep (\<lambda>v w. case UpdateVmInfo E v w of ((_, v'), w') \<Rightarrow> Some (v', w')) s1;
          unlock_vmlist s2 }"

section \<open>The list invariant\<close>

text \<open>The VM records in list order.\<close>

definition vms :: "'w mstate \<Rightarrow> VirtualMachineInfo list" where
  "vms s = map (\<lambda>a. the (vmheap s a)) (domainsListHead s)"

definition vmlist_inv :: "'w mstate \<Rightarrow> bool" where
  "vmlist_inv s \<longleftrightarrow> distinct (domainsListHead s) \<and> set (domainsListHead s) = dom (vmheap s) \<and>
     count s = int (length (domainsListHead s)) \<and> in_s32 (count s) \<and>
     (\<forall>a v. vmheap s a = Some v \<longrightarrow> vm_ok v) \<and> distinct (map domid (vms s))"

lemma vmlist_invD:
  assumes "vmlist_inv s"
  shows "distinct (domainsListHead s)" and "set (domainsListHead s) = dom (vmheap s)"
    and "count s = int (length (domainsListHead s))"
    and "\<And>a v. vmheap s a = Some v \<Longrightarrow> vm_ok v" and "distinct (map domid (vms s))"
    and "in_s32 (count s)"
  using assms by (auto simp: vmlist_inv_def)

lemma vmlist_inv_heap:
  "vmlist_inv s \<Longrightarrow> a \<in> set (domainsListHead s) \<Longrightarrow> \<exists>v. vmheap s a = Some v \<and> vm_ok v"
  by (auto simp: vmlist_inv_def)

lemma vmlist_inv_frame [simp]:
  "vmlist_inv (s\<lparr>lock := b\<rparr>) = vmlist_inv s"
  "vmlist_inv (s\<lparr>requestLock := b\<rparr>) = vmlist_inv s"
  "vmlist_inv (s\<lparr>world := w\<rparr>) = vmlist_inv s"
  "vmlist_inv (s\<lparr>cfg := g\<rparr>) = vmlist_inv s"
  "vmlist_inv (s\<lparr>g_libvirtConn := c\<rparr>) = vmlist_inv s"
  "vmlist_inv (s\<lparr>g_libvirtChange := i\<rparr>) = vmlist_inv s"
  "vmlist_inv (s\<lparr>g_stopMemlinkd := j\<rparr>) = vmlist_inv s"
  "vmlist_inv (s\<lparr>g_domainEvents := es\<rparr>) = vmlist_inv s"
  by (simp_all add: vmlist_inv_def vms_def)

lemma vmlist_inv_init: "vmlist_inv (init_mstate w)"
  by (simp add: vmlist_inv_def init_mstate_def vms_def in_s32_def)

text \<open>Overwriting a record in place, without changing its id, keeps the invariant.\<close>

lemma vms_upd:
  assumes "vmheap s a = Some v" and "domid v' = domid v"
  shows "map domid (vms (s\<lparr>vmheap := (vmheap s)(a \<mapsto> v')\<rparr>)) = map domid (vms s)"
  using assms by (auto simp: vms_def)

lemma vmlist_inv_upd:
  assumes "vmlist_inv s" and "vmheap s a = Some v" and "vm_ok v'" and "domid v' = domid v"
  shows "vmlist_inv (s\<lparr>vmheap := (vmheap s)(a \<mapsto> v')\<rparr>)"
  using assms(1-3) unfolding vmlist_inv_def vms_upd [OF assms(2,4)]
  by (auto simp: insert_absorb domI)

text \<open>What a list operation leaves alone: every other global, and both mutexes as they were.\<close>

definition list_frame :: "'w mstate \<Rightarrow> 'w mstate \<Rightarrow> bool" where
  "list_frame s s' \<longleftrightarrow> cfg s' = cfg s \<and> g_libvirtConn s' = g_libvirtConn s \<and>
     g_libvirtChange s' = g_libvirtChange s \<and> g_stopMemlinkd s' = g_stopMemlinkd s \<and>
     g_domainEvents s' = g_domainEvents s \<and> requestLock s' = requestLock s \<and> lock s' = lock s"

lemma list_frame_refl [simp]: "list_frame s s"
  by (simp add: list_frame_def)

lemma list_frame_trans: "list_frame s t \<Longrightarrow> list_frame t u \<Longrightarrow> list_frame s u"
  by (simp add: list_frame_def)

section \<open>Dropping references\<close>

lemma FreeVM_eq:
  "vmheap s a = Some v \<Longrightarrow>
   FreeVM E (Some a) s = Some (s\<lparr>vmheap := (vmheap s)(a := None),
     world := (case vdom v of None \<Rightarrow> world s | Some d \<Rightarrow> virDomainFree E d (world s))\<rparr>)"
  by (simp add: FreeVM_def)

text \<open>
  Dropping the last reference unlinks and frees the VM; otherwise only the count changes. In both
  cases the invariant holds afterwards.
\<close>

lemma VMInfoUnref_last:
  assumes "vmlist_inv s" and "vmheap s a = Some v" and "refcount v = 1"
  shows "\<exists>w. VMInfoUnref E a s =
     Some (s\<lparr>domainsListHead := remove1 a (domainsListHead s), count := count s - 1,
            vmheap := (vmheap s)(a := None), world := w\<rparr>)"
proof -
  have mem: "a \<in> set (domainsListHead s)" using assms(1,2) by (auto simp: vmlist_inv_def)
  then have "in_s32 (count s - 1)" using assms(1)
    by (cases "domainsListHead s") (auto simp: vmlist_inv_def in_s32_def)
  then show ?thesis using mem assms(2,3)
    by (simp add: VMInfoUnref_def wrap32_def DeleteVMFromList_def put_vm_def FreeVM_def Let_def) blast
qed

lemma VMInfoUnref_shared:
  assumes "vmheap s a = Some v" and "1 < refcount v" and "in_s32 (refcount v)"
  shows "VMInfoUnref E a s =
     Some (s\<lparr>vmheap := (vmheap s)(a \<mapsto> v\<lparr>refcount := refcount v - 1\<rparr>)\<rparr>)"
proof -
  have "wrap32 (refcount v - 1) = refcount v - 1"
    using assms(2,3) by (intro wrap32_id) (simp add: in_s32_def)
  with assms show ?thesis by (simp add: VMInfoUnref_def put_vm_def Let_def)
qed

lemma vmlist_inv_delete:
  assumes "vmlist_inv s" and "a \<in> set (domainsListHead s)"
  shows "vmlist_inv (s\<lparr>domainsListHead := remove1 a (domainsListHead s), count := count s - 1,
            vmheap := (vmheap s)(a := None), world := w\<rparr>)"
proof -
  note inv = vmlist_invD [OF assms(1)]
  have len: "length (domainsListHead s) = Suc (length (remove1 a (domainsListHead s)))"
    using assms(2) length_pos_if_in_set [OF assms(2)] by (simp add: length_remove1)
  have "map domid (vms (s\<lparr>domainsListHead := remove1 a (domainsListHead s),
      count := count s - 1, vmheap := (vmheap s)(a := None), world := w\<rparr>))
      = map domid (map (\<lambda>b. the (vmheap s b)) (remove1 a (domainsListHead s)))"
    using inv(1) by (auto simp: vms_def set_remove1_eq)
  moreover have "distinct (map domid (map (\<lambda>b. the (vmheap s b)) (remove1 a (domainsListHead s))))"
    using inv(1,5) unfolding vms_def map_map distinct_map
    by (auto intro: inj_on_subset set_remove1_subset)
  ultimately have "distinct (map domid (vms (s\<lparr>domainsListHead := remove1 a (domainsListHead s),
      count := count s - 1, vmheap := (vmheap s)(a := None), world := w\<rparr>)))"
    by (simp only:)
  with inv(1-4,6) len assms(2) show ?thesis unfolding vmlist_inv_def
    by (auto simp: in_s32_def set_remove1_eq split: if_splits)
qed

lemma VMInfoUnref_inv:
  assumes "vmlist_inv s" and "a \<in> set (domainsListHead s)"
  shows "\<exists>s'. VMInfoUnref E a s = Some s' \<and> vmlist_inv s' \<and> list_frame s s' \<and>
    set (domainsListHead s) - {a} \<subseteq> set (domainsListHead s')"
proof -
  obtain v where v: "vmheap s a = Some v" "vm_ok v" using vmlist_inv_heap [OF assms] by blast
  then have r: "1 \<le> refcount v" "in_s32 (refcount v)" by (auto simp: vm_ok_def vm_typed_def)
  show ?thesis
  proof (cases "refcount v = 1")
    case True
    then obtain w where "VMInfoUnref E a s =
        Some (s\<lparr>domainsListHead := remove1 a (domainsListHead s), count := count s - 1,
          vmheap := (vmheap s)(a := None), world := w\<rparr>)"
      using VMInfoUnref_last [OF assms(1) v(1)] by blast
    with vmlist_inv_delete [OF assms] vmlist_invD(1) [OF assms(1)]
    show ?thesis by (simp add: set_remove1_eq list_frame_def)
  next
    case False
    with r have gt: "1 < refcount v" by simp
    have "vm_ok (v\<lparr>refcount := refcount v - 1\<rparr>)"
      using v(2) gt by (auto simp: vm_ok_def vm_typed_def balloon_flags_ok_def in_s32_def)
    from vmlist_inv_upd [OF assms(1) v(1) this] VMInfoUnref_shared [OF v(1) gt r(2)]
    show ?thesis by (auto simp: list_frame_def)
  qed
qed

lemma foreach_unref:
  assumes "vmlist_inv s" and "distinct xs" and "set xs \<subseteq> set (domainsListHead s)"
  shows "\<exists>s'. foreach (VMInfoUnref E) xs s = Some s' \<and> vmlist_inv s' \<and> list_frame s s'"
  using assms
proof (induction xs arbitrary: s)
  case Nil
  then show ?case by simp
next
  case (Cons a xs)
  from VMInfoUnref_inv [OF Cons.prems(1), of a E] Cons.prems(3) obtain s1
    where s1: "VMInfoUnref E a s = Some s1" "vmlist_inv s1" "list_frame s s1"
      "set (domainsListHead s) - {a} \<subseteq> set (domainsListHead s1)" by auto
  have "set xs \<subseteq> set (domainsListHead s1)" using s1(4) Cons.prems(2,3) by auto
  from Cons.IH [OF s1(2) _ this] Cons.prems(2) s1(1,3) show ?case
    by (auto intro: list_frame_trans)
qed

text \<open>Nobody else holds a reference: the state the daemon is in when no caller has taken one.\<close>

definition sole_refs :: "'w mstate \<Rightarrow> bool" where
  "sole_refs s \<longleftrightarrow> (\<forall>a v. vmheap s a = Some v \<longrightarrow> refcount v = 1)"

lemma foreach_unref_last:
  assumes "vmlist_inv s" and "sole_refs s" and "distinct xs" and "set xs \<subseteq> set (domainsListHead s)"
    and "foreach (VMInfoUnref E) xs s = Some s'"
  shows "set (domainsListHead s') = set (domainsListHead s) - set xs"
  using assms
proof (induction xs arbitrary: s)
  case Nil
  then show ?case by simp
next
  case (Cons a xs)
  have mem: "a \<in> set (domainsListHead s)" using Cons.prems(4) by simp
  obtain v where v: "vmheap s a = Some v" using vmlist_inv_heap [OF Cons.prems(1) mem] by blast
  with Cons.prems(2) have "refcount v = 1" by (auto simp: sole_refs_def)
  from VMInfoUnref_last [OF Cons.prems(1) v this] obtain w where
    s1: "VMInfoUnref E a s = Some (s\<lparr>domainsListHead := remove1 a (domainsListHead s),
       count := count s - 1, vmheap := (vmheap s)(a := None), world := w\<rparr>)" (is "_ = Some ?s1")
    by blast
  have d: "set (remove1 a (domainsListHead s)) = set (domainsListHead s) - {a}"
    using vmlist_invD(1) [OF Cons.prems(1)] by (rule set_remove1_eq)
  have "vmlist_inv ?s1" using vmlist_inv_delete [OF Cons.prems(1) mem] by simp
  moreover have "sole_refs ?s1" using Cons.prems(2) by (auto simp: sole_refs_def)
  moreover have "set xs \<subseteq> set (domainsListHead ?s1)" using Cons.prems(3,4) d by auto
  moreover have "foreach (VMInfoUnref E) xs ?s1 = Some s'" using Cons.prems(5) s1 by simp
  ultimately have "set (domainsListHead s') = set (domainsListHead ?s1) - set xs"
    using Cons.prems(3) by (intro Cons.IH) auto
  with d show ?case by auto
qed

lemma FreeAllVM_runs:
  assumes "vmlist_inv s" and "\<not> lock s"
  shows "\<exists>s'. FreeAllVM E s = Some s' \<and> vmlist_inv s' \<and> list_frame s s'"
proof -
  have "vmlist_inv (s\<lparr>lock := True\<rparr>)" using assms(1) by simp
  from foreach_unref [OF this, of "domainsListHead s" E] vmlist_invD(1) [OF assms(1)] obtain s'
    where "foreach (VMInfoUnref E) (domainsListHead s) (s\<lparr>lock := True\<rparr>) = Some s'"
      "vmlist_inv s'" "list_frame (s\<lparr>lock := True\<rparr>) s'" by auto
  then show ?thesis using assms(2)
    by (simp add: FreeAllVM_def mutex list_frame_def)
qed

lemma FreeAllVM_all:
  assumes "vmlist_inv s" and "sole_refs s" and "\<not> lock s"
  shows "\<exists>s'. FreeAllVM E s = Some s' \<and> domainsListHead s' = [] \<and> vmheap s' = Map.empty \<and>
    count s' = 0 \<and> \<not> lock s'"
proof -
  from FreeAllVM_runs [OF assms(1,3)] obtain s' where
    s': "FreeAllVM E s = Some s'" "vmlist_inv s'" "list_frame s s'" by blast
  from s'(1) assms(3) obtain t where
    t: "foreach (VMInfoUnref E) (domainsListHead s) (s\<lparr>lock := True\<rparr>) = Some t"
    and s't: "s' = t\<lparr>lock := False\<rparr>"
    by (auto simp: FreeAllVM_def mutex split: Option.bind_splits if_splits)
  have "set (domainsListHead t) = set (domainsListHead s) - set (domainsListHead s)"
    using foreach_unref_last [OF _ _ _ _ t] assms(1,2) vmlist_invD(1) [OF assms(1)]
    by (simp add: sole_refs_def)
  then have e: "domainsListHead s' = []" using s't by simp
  moreover have "dom (vmheap s') = {}" and "count s' = 0"
    using vmlist_invD(2,3) [OF s'(2)] e by simp_all
  moreover have "\<not> lock s'" using s't by simp
  ultimately show ?thesis using s'(1) by blast
qed

text \<open>
  \<open>FreeAllVM\<close> empties the list when no other reference is held: every record is unlinked and
  freed, nothing leaks, the counter is zero and the lock is released.
\<close>

theorem FreeAllVM_empties:
  assumes "vmlist_inv s" and "sole_refs s" and "\<not> lock s"
  shows "\<exists>s'. FreeAllVM E s = Some s' \<and> domainsListHead s' = [] \<and> vmheap s' = Map.empty \<and>
    count s' = 0 \<and> \<not> lock s'"
  using assms by (rule FreeAllVM_all)

section \<open>Adding and deleting a VM\<close>

lemma UpdateVmInfo_frame:
  assumes "UpdateVmInfo E v w = ((rc, v'), w')"
  shows "\<exists>m c st. v' = v\<lparr>memory := m, currentMem := c, state := st\<rparr> \<and>
    (in_s64 (memory v) \<longrightarrow> in_s64 m) \<and> (in_s64 (currentMem v) \<longrightarrow> in_s64 c)"
proof -
  obtain ret x w1 where g: "GetVmInfo E (Some v) w = ((ret, Some x), w1)"
    using GetVmInfo_Some by metis
  with assms have "v' = x" by (simp add: UpdateVmInfo_def)
  with GetVmInfo_frame [OF g] show ?thesis by simp
qed

lemma UpdateVmInfo_ok:
  assumes "UpdateVmInfo E v w = ((rc, v'), w')" and "vm_ok v"
  shows "vm_ok v' \<and> domid v' = domid v"
  using UpdateVmInfo_frame [OF assms(1)] assms(2)
  by (auto simp: vm_ok_def vm_typed_def balloon_flags_ok_def)

text \<open>
  What a successful initialisation leaves in the fresh record: a handle, a name and sizes; the
  other members are those of \<open>NewVM\<close>.
\<close>

definition windows_flag :: "int \<Rightarrow> VirtualMachineInfo \<Rightarrow> bool" where
  "windows_flag win v = (if 0 \<le> win then win \<noteq> 0 else isWindows v)"

lemma windows_flag:
  "(if 0 \<le> win then v\<lparr>isWindows := (win \<noteq> 0)\<rparr> else v) = v\<lparr>isWindows := windows_flag win v\<rparr>"
  by (simp add: windows_flag_def)

lemma InitAndCheckVM_update:
  assumes "InitAndCheckVM E conn g v w = Some ((0, v'), w')"
  shows "\<exists>d name b w5 ret w6.
    UpdateVmInfo E (v\<lparr>vdom := Some d, domname := Some name, isWindows := b\<rparr>) w5 = ((ret, v'), w6)"
proof -
  from assms obtain d w1 name w2 rc nm w3 b w5 w6 ret where
    *: "CopyString E (Some name) w2 = ((rc, nm), w3)" "0 \<le> rc"
      "UpdateVmInfo E (v\<lparr>vdom := Some d, domname := nm, isWindows := b\<rparr>) w5 = ((ret, v'), w6)"
    unfolding InitAndCheckVM_def windows_flag Let_def
    by (auto split: prod.splits if_splits Option.bind_splits)
  have "nm = Some name" using *(1,2) by (auto simp: CopyString_def split: prod.splits bool.splits)
  with *(3) show ?thesis by blast
qed

lemma InitAndCheckVM_result:
  assumes "InitAndCheckVM E conn g v w = Some ((0, v'), w')"
  shows "\<exists>d n m c st b. v' = v\<lparr>vdom := Some d, domname := Some n, isWindows := b,
      memory := m, currentMem := c, state := st\<rparr> \<and>
    (in_s64 (memory v) \<longrightarrow> in_s64 m) \<and> (in_s64 (currentMem v) \<longrightarrow> in_s64 c)"
proof -
  from InitAndCheckVM_update [OF assms] obtain d name b w5 ret w6 where
    "UpdateVmInfo E (v\<lparr>vdom := Some d, domname := Some name, isWindows := b\<rparr>) w5 = ((ret, v'), w6)"
    by (elim exE)
  from UpdateVmInfo_frame [OF this] obtain m c st where
    "v' = v\<lparr>vdom := Some d, domname := Some name, isWindows := b,
       memory := m, currentMem := c, state := st\<rparr>"
    "in_s64 (memory v) \<longrightarrow> in_s64 m" "in_s64 (currentMem v) \<longrightarrow> in_s64 c"
    by auto
  then show ?thesis by blast
qed

lemma InitAndCheckVM_total:
  assumes "strtok_s_ok E"
  shows "\<exists>r. InitAndCheckVM E conn g v w = Some r"
  using CheckString_total [OF assms]
  by (auto simp: InitAndCheckVM_def Let_def CheckVMHasHugePage_def CheckVMIsWindows_def
      split: prod.splits option.splits Option.bind_splits)
     (metis option.distinct(1))+

lemma lock_restore [simp]: "\<not> lock s \<Longrightarrow> s\<lparr>lock := False\<rparr> = s"
  by simp

lemma find_domid:
  assumes "vmlist_inv s"
  shows "find_vm (\<lambda>v. Some (domid v = did)) (domainsListHead s) (vmheap s) = Some None
           \<longleftrightarrow> did \<notin> set (map domid (vms s))"
    and "\<exists>r. find_vm (\<lambda>v. Some (domid v = did)) (domainsListHead s) (vmheap s) = Some r"
proof -
  have heap: "\<exists>v. vmheap s a = Some v" if "a \<in> set (domainsListHead s)" for a
    using vmlist_inv_heap [OF assms that] by blast
  show "\<exists>r. find_vm (\<lambda>v. Some (domid v = did)) (domainsListHead s) (vmheap s) = Some r"
    using heap by (intro find_vm_total) auto
  then obtain r where r: "find_vm (\<lambda>v. Some (domid v = did)) (domainsListHead s) (vmheap s) = Some r" ..
  show "find_vm (\<lambda>v. Some (domid v = did)) (domainsListHead s) (vmheap s) = Some None
           \<longleftrightarrow> did \<notin> set (map domid (vms s))"
  proof (cases r)
    case None
    with r find_vm_NoneD [of "\<lambda>v. Some (domid v = did)"] show ?thesis
      by (fastforce simp: vms_def)
  next
    case (Some a)
    with r find_vm_SomeD [of "\<lambda>v. Some (domid v = did)" "domainsListHead s" "vmheap s" a]
    show ?thesis by (force simp: vms_def)
  qed
qed

definition fresh_vm :: "int \<Rightarrow> VirtualMachineInfo" where
  "fresh_vm did = zero_vm\<lparr>domid := did, needBalloonFlag := 1, refcount := 1\<rparr>"

lemma NewVM_eq:
  "NewVM E did s =
     (case calloc_vm E (\<lambda>a. vmheap s a \<noteq> None) (world s) of
       (None, w) \<Rightarrow> (None, s\<lparr>world := w\<rparr>)
     | (Some a, w) \<Rightarrow> (Some a, s\<lparr>vmheap := (vmheap s)(a \<mapsto> fresh_vm did), world := w\<rparr>))"
  by (simp add: NewVM_def fresh_vm_def zero_vm_def put_vm_def split: prod.splits option.splits)

lemma init_fresh_vm_ok:
  assumes "InitAndCheckVM E conn g (fresh_vm did) w = Some ((0, v'), w')"
  shows "vm_ok v' \<and> domid v' = did \<and> refcount v' = 1 \<and> domname v' \<noteq> None"
  using InitAndCheckVM_result [OF assms]
  by (auto simp: fresh_vm_def zero_vm_def vm_ok_def vm_typed_def balloon_flags_ok_def
      in_s32_def in_s64_def)

text \<open>
  Whether a new domain is taken in, and under which name: the record can be allocated, the
  domain is found and has a name, it does not use preallocated huge pages, and its information
  can be read.
\<close>

definition admit :: "'w ext \<Rightarrow> int \<Rightarrow> 'w mstate \<Rightarrow> string option" where
  "admit E did s =
     (case calloc_vm E (\<lambda>a. vmheap s a \<noteq> None) (world s) of
       (None, w) \<Rightarrow> None
     | (Some a, w) \<Rightarrow>
        (case InitAndCheckVM E (g_libvirtConn s) (cfg s) (fresh_vm did) w of
          None \<Rightarrow> None
        | Some ((rc, v), w') \<Rightarrow> if rc = 0 then domname v else None))"

text \<open>The two outcomes of \<open>FindAddVMToList\<close>: nothing changed, or one VM in front.\<close>

definition added :: "int \<Rightarrow> VirtualMachineInfo \<Rightarrow> 'w mstate \<Rightarrow> 'w mstate \<Rightarrow> bool" where
  "added did v s s' \<longleftrightarrow> (\<exists>a. vmheap s a = None \<and> domainsListHead s' = a # domainsListHead s \<and>
     vmheap s' = (vmheap s)(a \<mapsto> v)) \<and> count s' = count s + 1 \<and> in_s32 (count s + 1) \<and>
     vm_ok v \<and> domid v = did \<and> refcount v = 1 \<and> did \<notin> set (map domid (vms s))"

definition same_list :: "'w mstate \<Rightarrow> 'w mstate \<Rightarrow> bool" where
  "same_list s s' \<longleftrightarrow> domainsListHead s' = domainsListHead s \<and> vmheap s' = vmheap s \<and> count s' = count s"

text \<open>The tail of the addition, once the record is allocated: it is filled and linked, or freed again.\<close>

lemma FindAdd_allocated:
  assumes unl: "\<not> lock s" and run: "FindAddVMToList E did s = Some s'" and new: "did \<notin> set (map domid (vms s))"
    and r: "find_vm (\<lambda>v. Some (domid v = did)) (domainsListHead s) (vmheap s) = Some None"
    and c: "calloc_vm E (\<lambda>a. vmheap s a \<noteq> None) (world s) = (Some a, w)" and fresh: "vmheap s a = None"
  shows "list_frame s s' \<and> (if admit E did s = None then same_list s s'
     else \<exists>v. added did v s s' \<and> domname v = admit E did s)"
proof -
  from run unl r c obtain rc v' w' where
    i: "InitAndCheckVM E (g_libvirtConn s) (cfg s) (fresh_vm did) w = Some ((rc, v'), w')"
    by (auto simp: FindAddVMToList_def NewVM_eq mutex split: Option.bind_splits)
  show ?thesis
  proof (cases "rc = 0")
    case True
    from init_fresh_vm_ok [OF i [unfolded True]]
    have ok: "vm_ok v' \<and> domid v' = did \<and> refcount v' = 1 \<and> domname v' \<noteq> None" .
    have "admit E did s = domname v'" using c i True by (simp add: admit_def)
    moreover from run unl r c i True ok fresh new have "list_frame s s' \<and> added did v' s s'"
      by (auto simp: FindAddVMToList_def NewVM_eq mutex put_vm_def list_frame_def added_def
          split: Option.bind_splits)
    ultimately show ?thesis using ok by auto
  next
    case False
    from run unl r c i False fresh show ?thesis
      by (auto simp: FindAddVMToList_def NewVM_eq mutex put_vm_def FreeVM_def list_frame_def
          same_list_def fun_upd_idem Let_def admit_def)
  qed
qed

lemma FindAddVMToList_outcome:
  assumes inv: "vmlist_inv s" and unl: "\<not> lock s" and env: "calloc_ok E"
    and run: "FindAddVMToList E did s = Some s'"
  shows "list_frame s s' \<and>
    (if did \<in> set (map domid (vms s)) \<or> admit E did s = None then same_list s s'
     else \<exists>v. added did v s s' \<and> domname v = admit E did s)"
proof -
  obtain r where r: "find_vm (\<lambda>v. Some (domid v = did)) (domainsListHead s) (vmheap s) = Some r"
    using find_domid(2) [OF inv] by blast
  obtain p w where c: "calloc_vm E (\<lambda>a. vmheap s a \<noteq> None) (world s) = (p, w)" by fastforce
  consider (listed) a where "r = Some a" | (nomem) "r = None" "p = None" | (alloc) a where "r = None" "p = Some a"
    by (cases r; cases p) auto
  then show ?thesis
  proof cases
    case listed
    with r find_domid(1) [OF inv, of did] have "did \<in> set (map domid (vms s))" by auto
    with listed r run unl show ?thesis
      by (simp add: FindAddVMToList_def mutex list_frame_def same_list_def)
  next
    case nomem
    with c r run unl show ?thesis
      by (auto simp: FindAddVMToList_def NewVM_eq mutex list_frame_def same_list_def admit_def)
  next
    case (alloc a)
    with r find_domid(1) [OF inv] have new: "did \<notin> set (map domid (vms s))" by simp
    from alloc c calloc_okD [OF env] have "vmheap s a = None" by fastforce
    with FindAdd_allocated [OF unl run new] alloc c r new show ?thesis by simp
  qed
qed

lemma FindAddVMToList_runs:
  assumes inv: "vmlist_inv s" and unl: "\<not> lock s" and env: "strtok_s_ok E"
    and room: "in_s32 (count s + 1)"
  shows "\<exists>s'. FindAddVMToList E did s = Some s'"
proof -
  obtain r where r: "find_vm (\<lambda>v. Some (domid v = did)) (domainsListHead s) (vmheap s) = Some r"
    using find_domid(2) [OF inv] by blast
  obtain p w where c: "calloc_vm E (\<lambda>a. vmheap s a \<noteq> None) (world s) = (p, w)" by fastforce
  obtain rc v' w' where
    "InitAndCheckVM E (g_libvirtConn s) (cfg s) (fresh_vm did) w = Some ((rc, v'), w')"
    using InitAndCheckVM_total [OF env] by (metis surj_pair)
  with r c unl room show ?thesis
    by (cases r; cases p; cases "rc = 0")
       (simp_all add: FindAddVMToList_def NewVM_eq mutex put_vm_def FreeVM_def Let_def)
qed

lemma added_inv:
  assumes "vmlist_inv s" and "added did v s s'"
  shows "vmlist_inv s'"
proof -
  from assms(2) obtain a where a: "vmheap s a = None" "domainsListHead s' = a # domainsListHead s"
    "vmheap s' = (vmheap s)(a \<mapsto> v)" and
    v: "count s' = count s + 1" "in_s32 (count s + 1)" "vm_ok v" "domid v = did"
      "did \<notin> set (map domid (vms s))"
    by (auto simp: added_def)
  have notin: "a \<notin> set (domainsListHead s)" using a(1) vmlist_invD(2) [OF assms(1)] by auto
  then have "vms s' = v # vms s" using a by (auto simp: vms_def)
  then show ?thesis
    using assms(1) a v notin unfolding vmlist_inv_def by (auto split: if_splits)
qed

lemma same_list_inv: "vmlist_inv s \<Longrightarrow> same_list s s' \<Longrightarrow> vmlist_inv s'"
  by (auto simp: vmlist_inv_def same_list_def vms_def)

lemma find_name:
  assumes "vmlist_inv s"
  shows "\<exists>r. find_vm (\<lambda>v. map_option (\<lambda>n. n = name) (domname v)) (domainsListHead s) (vmheap s) = Some r"
  using vmlist_inv_heap [OF assms]
  by (intro find_vm_total) (fastforce simp: vm_ok_def)

lemma FindDeleteVMFromList_runs:
  assumes "vmlist_inv s" and "\<not> lock s"
  shows "\<exists>s'. FindDeleteVMFromList E name s = Some s' \<and> vmlist_inv s' \<and> list_frame s s'"
proof -
  obtain r where r: "find_vm (\<lambda>v. map_option (\<lambda>n. n = name) (domname v)) (domainsListHead s) (vmheap s) = Some r"
    using find_name [OF assms(1)] by blast
  show ?thesis
  proof (cases r)
    case None
    with r assms show ?thesis
      by (simp add: FindDeleteVMFromList_def mutex list_frame_def)
  next
    case (Some a)
    with r find_vm_SomeD have "a \<in> set (domainsListHead (s\<lparr>lock := True\<rparr>))" by fastforce
    with VMInfoUnref_inv [of "s\<lparr>lock := True\<rparr>" a E] assms(1) obtain s'
      where "VMInfoUnref E a (s\<lparr>lock := True\<rparr>) = Some s'" "vmlist_inv s'"
        "list_frame (s\<lparr>lock := True\<rparr>) s'" by auto
    with r Some assms(2) show ?thesis
      by (simp add: FindDeleteVMFromList_def mutex list_frame_def)
  qed
qed

section \<open>Loops over the records\<close>

text \<open>
  The contract of a loop body: it keeps a well-formed record well formed and does not touch what
  identifies the VM, nor its reference count. Such a loop keeps the list, and every record of the
  result comes from one run of the body on the record that was there.
\<close>

definition same_vm :: "VirtualMachineInfo \<Rightarrow> VirtualMachineInfo \<Rightarrow> bool" where
  "same_vm v v' \<longleftrightarrow> domid v' = domid v \<and> domname v' = domname v \<and> vdom v' = vdom v \<and>
     refcount v' = refcount v"

lemma same_vm_refl [simp]: "same_vm v v"
  by (simp add: same_vm_def)

lemma same_vm_trans: "same_vm u v \<Longrightarrow> same_vm v w \<Longrightarrow> same_vm u w"
  by (simp add: same_vm_def)

locale vm_step =
  fixes f :: "VirtualMachineInfo \<Rightarrow> 'w \<Rightarrow> (VirtualMachineInfo \<times> 'w) option"
  assumes step_ok: "vm_ok v \<Longrightarrow> f v w = Some (v', w') \<Longrightarrow> vm_ok v' \<and> same_vm v v'"
begin

lemma on_vm_ok:
  assumes "vmlist_inv s" and "on_vm a f s = Some s'"
  shows "vmlist_inv s' \<and> list_frame s s' \<and> domainsListHead s' = domainsListHead s \<and>
    (\<exists>v v'. vmheap s a = Some v \<and> vmheap s' = (vmheap s)(a \<mapsto> v') \<and> same_vm v v' \<and>
       f v (world s) = Some (v', world s'))"
proof -
  from assms(2) obtain v v' w' where v: "vmheap s a = Some v" "f v (world s) = Some (v', w')"
    and s': "s' = s\<lparr>vmheap := (vmheap s)(a \<mapsto> v'), world := w'\<rparr>"
    by (auto simp: on_vm_def split: Option.bind_splits)
  have "vm_ok v' \<and> same_vm v v'" using step_ok [OF _ v(2)] vmlist_invD(4) [OF assms(1) v(1)] by simp
  with vmlist_inv_upd [OF assms(1) v(1), of v'] v show ?thesis
    by (simp add: s' list_frame_def same_vm_def)
qed

lemma foreach_ok:
  assumes "vmlist_inv s" and "distinct as" and "foreach (\<lambda>a. on_vm a f) as s = Some s'"
  shows "vmlist_inv s' \<and> list_frame s s' \<and> domainsListHead s' = domainsListHead s \<and>
    (\<forall>a \<in> set as. \<exists>v v' w w'. vmheap s a = Some v \<and> vmheap s' a = Some v' \<and> same_vm v v' \<and>
       f v w = Some (v', w')) \<and>
    (\<forall>a. a \<notin> set as \<longrightarrow> vmheap s' a = vmheap s a)"
  using assms
proof (induction as arbitrary: s)
  case Nil
  then show ?case by simp
next
  case (Cons a as)
  then obtain s1 where s1: "on_vm a f s = Some s1" "foreach (\<lambda>a. on_vm a f) as s1 = Some s'"
    by (auto split: Option.bind_splits)
  note one = on_vm_ok [OF Cons.prems(1) s1(1)]
  have rest: "vmlist_inv s' \<and> list_frame s1 s' \<and> domainsListHead s' = domainsListHead s1 \<and>
    (\<forall>b \<in> set as. \<exists>v v' w w'. vmheap s1 b = Some v \<and> vmheap s' b = Some v' \<and> same_vm v v' \<and>
       f v w = Some (v', w')) \<and>
    (\<forall>b. b \<notin> set as \<longrightarrow> vmheap s' b = vmheap s1 b)"
    using one Cons.prems(2) s1(2) by (intro Cons.IH) auto
  have "list_frame s s'" using one rest list_frame_trans by blast
  moreover have "\<exists>v v' w w'. vmheap s b = Some v \<and> vmheap s' b = Some v' \<and> same_vm v v' \<and>
      f v w = Some (v', w')" if "b \<in> set (a # as)" for b
  proof (cases "b = a")
    case True
    with one rest Cons.prems(2) show ?thesis by (metis distinct.simps(2) fun_upd_same)
  next
    case False
    with that one rest show ?thesis by (metis fun_upd_other set_ConsD)
  qed
  moreover have "vmheap s' b = vmheap s b" if "b \<notin> set (a # as)" for b
    using that one rest by auto
  ultimately show ?case using one rest by simp
qed

lemma sweep_ok:
  assumes "vmlist_inv s" and "sweep f s = Some s'"
  shows "vmlist_inv s'" and "list_frame s s'" and "domainsListHead s' = domainsListHead s"
    and "list_all2 same_vm (vms s) (vms s')"
    and "list_all2 (\<lambda>v v'. \<exists>w w'. f v w = Some (v', w')) (vms s) (vms s')"
proof -
  note all = foreach_ok [OF assms(1) vmlist_invD(1) [OF assms(1)] assms(2) [unfolded sweep_def]]
  then show inv: "vmlist_inv s'" and "list_frame s s'" and d: "domainsListHead s' = domainsListHead s"
    by blast+
  have each: "same_vm (the (vmheap s a)) (the (vmheap s' a)) \<and>
      (\<exists>w w'. f (the (vmheap s a)) w = Some (the (vmheap s' a), w'))"
    if "a \<in> set (domainsListHead s)" for a
    using all that by (metis option.sel)
  then show "list_all2 same_vm (vms s) (vms s')"
    and "list_all2 (\<lambda>v v'. \<exists>w w'. f v w = Some (v', w')) (vms s) (vms s')"
    unfolding vms_def d by (auto simp: list_all2_conv_all_nth)
qed

end

text \<open>A body that also returns, on the records that satisfy a precondition.\<close>

locale vm_step_total = vm_step +
  fixes pre :: "VirtualMachineInfo \<Rightarrow> bool"
  assumes step_runs: "vm_ok v \<Longrightarrow> pre v \<Longrightarrow> f v w \<noteq> None"
begin

lemma foreach_runs:
  assumes "vmlist_inv s" and "distinct as" and "set as \<subseteq> set (domainsListHead s)"
    and "\<And>a v. a \<in> set as \<Longrightarrow> vmheap s a = Some v \<Longrightarrow> pre v"
  shows "\<exists>s'. foreach (\<lambda>a. on_vm a f) as s = Some s'"
  using assms
proof (induction as arbitrary: s)
  case Nil
  then show ?case by simp
next
  case (Cons a as)
  obtain v where v: "vmheap s a = Some v" "vm_ok v"
    using vmlist_inv_heap [OF Cons.prems(1), of a] Cons.prems(3) by auto
  then have "pre v" using Cons.prems(4) [of a v] by simp
  with step_runs [OF v(2), of "world s"] obtain v' w' where "f v (world s) = Some (v', w')" by auto
  with v(1) obtain s1 where s1: "on_vm a f s = Some s1" by (simp add: on_vm_def)
  note one = on_vm_ok [OF Cons.prems(1) s1]
  have "\<exists>s'. foreach (\<lambda>a. on_vm a f) as s1 = Some s'"
  proof (rule Cons.IH)
    show "pre u" if "b \<in> set as" "vmheap s1 b = Some u" for b u
      using that one Cons.prems(2,4) by (metis distinct.simps(2) fun_upd_other list.set_intros(2))
  qed (use one Cons.prems(2,3) in auto)
  with s1 show ?case by simp
qed

lemma sweep_runs:
  assumes "vmlist_inv s" and "\<forall>v \<in> set (vms s). pre v"
  shows "\<exists>s'. sweep f s = Some s'"
  unfolding sweep_def
proof (rule foreach_runs [OF assms(1) vmlist_invD(1) [OF assms(1)] order_refl])
  show "pre v" if "a \<in> set (domainsListHead s)" "vmheap s a = Some v" for a v
    using that assms(2) by (auto simp: vms_def intro: image_eqI [of _ _ a])
qed

end

interpretation update_step:
  vm_step_total "\<lambda>v w. case UpdateVmInfo E v w of ((_, v'), w') \<Rightarrow> Some (v', w')" "\<lambda>_. True" for E
proof
  fix v w v' w'
  assume "vm_ok v" "(case UpdateVmInfo E v w of ((_, v'), w') \<Rightarrow> Some (v', w')) = Some (v', w')"
  then obtain rc where u: "UpdateVmInfo E v w = ((rc, v'), w')" and "vm_ok v" by (auto split: prod.splits)
  then have "vm_ok v'" using UpdateVmInfo_ok [OF u] by simp
  with UpdateVmInfo_frame [OF u] show "vm_ok v' \<and> same_vm v v'" by (auto simp: same_vm_def)
qed (auto split: prod.splits)

lemma UpdateAllVmInfo_runs:
  assumes "vmlist_inv s" and "\<not> lock s"
  shows "\<exists>s'. UpdateAllVmInfo E s = Some s' \<and> vmlist_inv s' \<and> list_frame s s'"
proof -
  have inv: "vmlist_inv (s\<lparr>lock := True\<rparr>)" using assms(1) by simp
  from update_step.sweep_runs [OF this, of E] obtain t where
    t: "sweep (\<lambda>v w. case UpdateVmInfo E v w of ((_, v'), w') \<Rightarrow> Some (v', w')) (s\<lparr>lock := True\<rparr>) = Some t"
    by auto
  from update_step.sweep_ok [OF inv t] t assms(2) show ?thesis
    by (simp add: UpdateAllVmInfo_def mutex list_frame_def)
qed

section \<open>The contract of a list operation\<close>

text \<open>
  What the callers in the other components rely on: an operation that returns leaves a
  well-formed list and the mutexes and other globals as it found them. A total operation also
  returns, as long as the counter has room for one more VM.
\<close>

locale vmlist_op =
  fixes op :: "'w ext \<Rightarrow> 'w mstate \<Rightarrow> 'w mstate option"
  assumes safe: "calloc_ok E \<Longrightarrow> vmlist_inv s \<Longrightarrow> \<not> lock s \<Longrightarrow> op E s = Some s' \<Longrightarrow>
    vmlist_inv s' \<and> list_frame s s'"
begin

lemma keeps_inv: "calloc_ok E \<Longrightarrow> vmlist_inv s \<Longrightarrow> \<not> lock s \<Longrightarrow> op E s = Some s' \<Longrightarrow> vmlist_inv s'"
  using safe [of E s s'] by simp

lemma releases: "calloc_ok E \<Longrightarrow> vmlist_inv s \<Longrightarrow> \<not> lock s \<Longrightarrow> op E s = Some s' \<Longrightarrow> \<not> lock s'"
  using safe [of E s s'] by (simp add: list_frame_def)

end

locale vmlist_op_total = vmlist_op +
  assumes runs: "strtok_s_ok E \<Longrightarrow> vmlist_inv s \<Longrightarrow> \<not> lock s \<Longrightarrow> in_s32 (count s + 1) \<Longrightarrow>
    \<exists>s'. op E s = Some s'"
begin

lemma succeeds:
  assumes "calloc_ok E" "strtok_s_ok E" "vmlist_inv s" "\<not> lock s" "in_s32 (count s + 1)"
  shows "\<exists>s'. op E s = Some s' \<and> vmlist_inv s' \<and> list_frame s s'"
  using runs [OF assms(2-5)] safe [OF assms(1,3,4)] by blast

end

lemma vmlist_op_totalI:
  assumes "\<And>E s. vmlist_inv s \<Longrightarrow> \<not> lock s \<Longrightarrow> \<exists>s'. op E s = Some s' \<and> vmlist_inv s' \<and> list_frame s s'"
  shows "vmlist_op_total op"
proof
  fix E :: "'a ext" and s s' :: "'a mstate"
  assume "vmlist_inv s" "\<not> lock s" "op E s = Some s'"
  with assms [of s E] show "vmlist_inv s' \<and> list_frame s s'" by simp
next
  fix E :: "'a ext" and s :: "'a mstate"
  assume "vmlist_inv s" "\<not> lock s"
  with assms [of s E] show "\<exists>s'. op E s = Some s'" by blast
qed

interpretation free_all: vmlist_op_total FreeAllVM
  by (rule vmlist_op_totalI) (rule FreeAllVM_runs)

interpretation find_add: vmlist_op_total "\<lambda>E. FindAddVMToList E did" for did
proof unfold_locales
  fix E :: "'w ext" and s s' :: "'w mstate"
  assume *: "calloc_ok E" "vmlist_inv s" "\<not> lock s" "FindAddVMToList E did s = Some s'"
  from FindAddVMToList_outcome [OF *(2,3,1,4)] *(2) show "vmlist_inv s' \<and> list_frame s s'"
    by (auto intro: same_list_inv added_inv split: if_splits)
qed (rule FindAddVMToList_runs)

interpretation find_delete: vmlist_op_total "\<lambda>E. FindDeleteVMFromList E name" for name
  by (rule vmlist_op_totalI) (rule FindDeleteVMFromList_runs)

interpretation update_all: vmlist_op_total UpdateAllVmInfo
  by (rule vmlist_op_totalI) (rule UpdateAllVmInfo_runs)

text \<open>Composition: what the event thread builds from these operations is one again.\<close>

lemma vmlist_op_seq:
  assumes "vmlist_op f" and "vmlist_op g"
  shows "vmlist_op (\<lambda>E s. do { s1 \<leftarrow> f E s; g E s1 })"
proof
  fix E :: "'a ext" and s s' :: "'a mstate"
  assume *: "calloc_ok E" "vmlist_inv s" "\<not> lock s" "do { s1 \<leftarrow> f E s; g E s1 } = Some s'"
  then obtain s1 where s1: "f E s = Some s1" "g E s1 = Some s'" by (auto split: Option.bind_splits)
  from vmlist_op.safe [OF assms(1) *(1-3) s1(1)] have "vmlist_inv s1" "list_frame s s1" by auto
  moreover from this *(3) have "\<not> lock s1" by (simp add: list_frame_def)
  ultimately show "vmlist_inv s' \<and> list_frame s s'"
    using vmlist_op.safe [OF assms(2) *(1) _ _ s1(2)] by (blast intro: list_frame_trans)
qed

lemma vmlist_op_foreach:
  assumes "\<And>x. vmlist_op (\<lambda>E. f E x)"
  shows "vmlist_op (\<lambda>E. foreach (f E) xs)"
proof (induction xs)
  case Nil
  show ?case by unfold_locales simp
next
  case (Cons x xs)
  from vmlist_op_seq [OF assms [of x] Cons] show ?case by simp
qed

section \<open>The registry that the list implements\<close>

text \<open>
  Seen from outside, the list is a sequence of (domain id, name) pairs, latest first. Adding an
  id that is there, or a domain that is not admitted, changes nothing; deleting removes the
  first pair with the name.
\<close>

type_synonym registry = "(int \<times> string) list"

definition reg_of :: "VirtualMachineInfo \<Rightarrow> int \<times> string" where
  "reg_of v = (domid v, the (domname v))"

definition reg :: "'w mstate \<Rightarrow> registry" where
  "reg s = map reg_of (vms s)"

definition reg_add :: "int \<Rightarrow> string option \<Rightarrow> registry \<Rightarrow> registry" where
  "reg_add did adm r =
     (case adm of None \<Rightarrow> r | Some n \<Rightarrow> if did \<in> fst ` set r then r else (did, n) # r)"

fun reg_del :: "string \<Rightarrow> registry \<Rightarrow> registry" where
  "reg_del n [] = []"
| "reg_del n (p # r) = (if snd p = n then r else p # reg_del n r)"

lemma fst_reg: "fst ` set (reg s) = set (map domid (vms s))"
  by (auto simp: reg_def reg_of_def image_image)

lemma reg_same_list: "same_list s s' \<Longrightarrow> reg s' = reg s"
  by (simp add: reg_def vms_def same_list_def)

lemma reg_added:
  assumes "vmlist_inv s" and "added did v s s'"
  shows "reg s' = (did, the (domname v)) # reg s"
proof -
  from assms(2) obtain a where a: "vmheap s a = None" "domainsListHead s' = a # domainsListHead s"
    "vmheap s' = (vmheap s)(a \<mapsto> v)" and "domid v = did" by (auto simp: added_def)
  moreover have "a \<notin> set (domainsListHead s)" using a(1) vmlist_invD(2) [OF assms(1)] by auto
  ultimately show ?thesis by (auto simp: reg_def reg_of_def vms_def)
qed

text \<open>The pair that \<open>reg_del\<close> removes is the VM that the name search finds.\<close>

lemma reg_del_found:
  assumes "find_vm (\<lambda>v. map_option (\<lambda>n. n = name) (domname v)) as h = Some (Some a)" and "distinct as"
  shows "reg_del name (map (\<lambda>b. reg_of (the (h b))) as)
    = map (\<lambda>b. reg_of (the ((h(a := None)) b))) (remove1 a as)"
  using assms
proof (induction as)
  case Nil
  then show ?case by simp
next
  case (Cons b as)
  from Cons.prems(1) obtain v n where v: "h b = Some v" "domname v = Some n"
    by (auto split: Option.bind_splits)
  show ?case
  proof (cases "n = name")
    case True
    with v Cons.prems have "a = b" by simp
    with True v Cons.prems(2) show ?thesis by (auto simp: reg_of_def)
  next
    case False
    with v Cons.prems(1) have f: "find_vm (\<lambda>v. map_option (\<lambda>n. n = name) (domname v)) as h = Some (Some a)"
      by simp
    with find_vm_SomeD [OF f] Cons.prems(2) have "a \<noteq> b" by auto
    with False v Cons.IH [OF f] Cons.prems(2) show ?thesis by (simp add: reg_of_def)
  qed
qed

lemma reg_del_absent:
  assumes "find_vm (\<lambda>v. map_option (\<lambda>n. n = name) (domname v)) as h = Some None"
  shows "reg_del name (map (\<lambda>b. reg_of (the (h b))) as) = map (\<lambda>b. reg_of (the (h b))) as"
  using assms
  by (induction as) (auto simp: reg_of_def split: Option.bind_splits if_splits)

lemma FindAddVMToList_reg:
  assumes "calloc_ok E" and "strtok_s_ok E" and "vmlist_inv s" and "\<not> lock s"
    and "in_s32 (count s + 1)"
  shows "\<exists>s'. FindAddVMToList E did s = Some s' \<and> vmlist_inv s' \<and> list_frame s s' \<and>
    reg s' = reg_add did (admit E did s) (reg s)"
proof -
  obtain s' where s': "FindAddVMToList E did s = Some s'" "vmlist_inv s'" "list_frame s s'"
    using find_add.succeeds [OF assms] by blast
  note out = FindAddVMToList_outcome [OF assms(3,4,1) s'(1)]
  have "reg s' = reg_add did (admit E did s) (reg s)"
  proof (cases "did \<in> set (map domid (vms s)) \<or> admit E did s = None")
    case True
    with out have "reg s' = reg s" by (auto intro: reg_same_list)
    with True show ?thesis by (auto simp: reg_add_def fst_reg split: option.split)
  next
    case False
    with out obtain v where "added did v s s'" "domname v = admit E did s" by auto
    with reg_added [OF assms(3)] False show ?thesis
      by (auto simp: reg_add_def fst_reg split: option.split)
  qed
  with s' show ?thesis by blast
qed

text \<open>
  C6: Adding a VM refines the registry. With room in the counter \<open>FindAddVMToList\<close> returns, keeps
  the list well formed, leaves the mutexes and the other globals as they were on every path,
  and has the effect of \<open>reg_add\<close>: one new pair in front exactly when the id is new and the domain is
  admitted.
\<close>

theorem FindAddVMToList_refines:
  assumes "calloc_ok E" and "strtok_s_ok E" and "vmlist_inv s" and "\<not> lock s"
    and "in_s32 (count s + 1)"
  shows "\<exists>s'. FindAddVMToList E did s = Some s' \<and> vmlist_inv s' \<and> list_frame s s' \<and>
    reg s' = reg_add did (admit E did s) (reg s)"
  using assms by (rule FindAddVMToList_reg)

lemma FindDeleteVMFromList_reg:
  assumes "vmlist_inv s" and "sole_refs s" and "\<not> lock s"
  shows "\<exists>s'. FindDeleteVMFromList E name s = Some s' \<and> vmlist_inv s' \<and> sole_refs s' \<and>
    list_frame s s' \<and> reg s' = reg_del name (reg s)"
proof -
  let ?P = "\<lambda>v. map_option (\<lambda>n. n = name) (domname v)"
  obtain r where r: "find_vm ?P (domainsListHead s) (vmheap s) = Some r"
    using find_name [OF assms(1)] by blast
  show ?thesis
  proof (cases r)
    case None
    with reg_del_absent r have "reg_del name (reg s) = reg s"
      by (simp add: reg_def vms_def comp_def)
    with None r assms show ?thesis by (simp add: FindDeleteVMFromList_def mutex)
  next
    case (Some a)
    then have f: "find_vm ?P (domainsListHead s) (vmheap s) = Some (Some a)" using r by simp
    let ?s1 = "s\<lparr>lock := True\<rparr>"
    from find_vm_SomeD [OF f] obtain v where
      a: "a \<in> set (domainsListHead s)" and v: "vmheap ?s1 a = Some v" by auto
    have one: "refcount v = 1" using assms(2) v by (simp add: sole_refs_def)
    have inv: "vmlist_inv ?s1" using assms(1) by simp
    from VMInfoUnref_last [OF inv v one] obtain w where
      u: "VMInfoUnref E a ?s1 = Some (?s1\<lparr>domainsListHead := remove1 a (domainsListHead s),
        count := count s - 1, vmheap := (vmheap s)(a := None), world := w\<rparr>)" (is "_ = Some ?s2")
      by auto
    have "vmlist_inv (s\<lparr>domainsListHead := remove1 a (domainsListHead s), count := count s - 1,
        vmheap := (vmheap s)(a := None)\<rparr>)"
      using vmlist_inv_delete [OF assms(1) a, of "world s"] by simp
    moreover have "reg ?s2 = reg_del name (reg s)"
      using reg_del_found [OF f] vmlist_invD(1) [OF assms(1)]
      by (simp add: reg_def vms_def comp_def)
    ultimately show ?thesis using f u assms(2,3)
      by (auto simp: FindDeleteVMFromList_def mutex list_frame_def sole_refs_def reg_def vms_def)
  qed
qed

text \<open>
  C7: Deleting a VM refines the registry. While nobody else holds a reference,
  \<open>FindDeleteVMFromList\<close> removes the first VM with the name, frees its record, and releases the
  lock; without such a VM nothing changes.
\<close>

theorem FindDeleteVMFromList_refines:
  assumes "vmlist_inv s" and "sole_refs s" and "\<not> lock s"
  shows "\<exists>s'. FindDeleteVMFromList E name s = Some s' \<and> vmlist_inv s' \<and> sole_refs s' \<and>
    list_frame s s' \<and> reg s' = reg_del name (reg s)"
  using assms by (rule FindDeleteVMFromList_reg)

section \<open>References\<close>

lemma GetRef_found:
  assumes "vmlist_inv s" and "\<not> lock s" and "GetRefVMInfoByDomid did s = Some (Some a, s1)"
  obtains v where "vmheap s a = Some v" and "domid v = did" and "a \<in> set (domainsListHead s)"
    and "s1 = put_vm a (v\<lparr>refcount := wrap32 (refcount v + 1)\<rparr>) s"
proof -
  from assms(2,3) have f: "find_vm (\<lambda>v. Some (domid v = did)) (domainsListHead s) (vmheap s) = Some (Some a)"
    by (auto simp: GetRefVMInfoByDomid_def VMInfoRef_def put_vm_def mutex
        split: Option.bind_splits option.splits)
  from find_vm_SomeD [OF f] obtain v where "a \<in> set (domainsListHead s)" "vmheap s a = Some v" "domid v = did"
    by auto
  moreover have "s1 = put_vm a (v\<lparr>refcount := wrap32 (refcount v + 1)\<rparr>) s"
    using \<open>vmheap s a = Some v\<close> assms(2,3) f
    by (simp add: GetRefVMInfoByDomid_def VMInfoRef_def put_vm_def mutex)
  ultimately show ?thesis using that by blast
qed

text \<open>Deleting a name leaves every record on the list that is not the one found under that name.\<close>

lemma FindDelete_others:
  assumes "vmlist_inv s" and "\<not> lock s" and "a \<in> set (domainsListHead s)"
    and "find_vm (\<lambda>v. map_option (\<lambda>n. n = name) (domname v)) (domainsListHead s) (vmheap s) = Some r" and "r \<noteq> Some a"
  shows "\<exists>s2. FindDeleteVMFromList E name s = Some s2 \<and> a \<in> set (domainsListHead s2) \<and> vmheap s2 a \<noteq> None"
proof (cases r)
  case None
  with assms vmlist_inv_heap [OF assms(1,3)] show ?thesis by (auto simp: FindDeleteVMFromList_def mutex)
next
  case (Some b)
  then have "b \<noteq> a" using assms(5) by simp
  from Some assms(4) find_vm_SomeD have "b \<in> set (domainsListHead (s\<lparr>lock := True\<rparr>))" by fastforce
  with VMInfoUnref_inv [of "s\<lparr>lock := True\<rparr>" b E] assms(1) obtain s2 where
    s2: "VMInfoUnref E b (s\<lparr>lock := True\<rparr>) = Some s2" "vmlist_inv s2" "list_frame (s\<lparr>lock := True\<rparr>) s2"
      "set (domainsListHead s) - {b} \<subseteq> set (domainsListHead s2)" by auto
  have "a \<in> set (domainsListHead s2)" using s2(4) assms(3) \<open>b \<noteq> a\<close> by auto
  moreover from this have "vmheap s2 a \<noteq> None" using vmlist_inv_heap [OF s2(2)] by blast
  moreover have "lock s2" using s2(3) by (simp add: list_frame_def)
  ultimately show ?thesis using Some s2(1) assms(2,4) by (simp add: FindDeleteVMFromList_def mutex)
qed

text \<open>
  C13: References. A VM found by \<open>GetRefVMInfoByDomid\<close> stays allocated and on the list when it is
  deleted in the meantime, whatever name the deletion is for, and giving the reference back
  without a deletion restores the state exactly.
\<close>

theorem reference_protects:
  assumes "vmlist_inv s" and "sole_refs s" and "\<not> lock s"
    and "GetRefVMInfoByDomid did s = Some (Some a, s1)"
  shows "PutUnrefVMInfo E (Some a) s1 = Some s \<and>
    (\<exists>s2. FindDeleteVMFromList E name s1 = Some s2 \<and> a \<in> set (domainsListHead s2) \<and>
      vmheap s2 a \<noteq> None)"
proof -
  from GetRef_found [OF assms(1,3,4)] obtain v where v: "vmheap s a = Some v" "domid v = did"
    "a \<in> set (domainsListHead s)"
    and s1': "s1 = put_vm a (v\<lparr>refcount := wrap32 (refcount v + 1)\<rparr>) s" by blast
  have "refcount v = 1" using assms(2) v(1) by (simp add: sole_refs_def)
  then have s1: "s1 = s\<lparr>vmheap := (vmheap s)(a \<mapsto> v\<lparr>refcount := 2\<rparr>)\<rparr>"
    using s1' by (simp add: put_vm_def wrap32_def)
  have v1: "v\<lparr>refcount := 1\<rparr> = v" using \<open>refcount v = 1\<close> by (cases v) simp
  have "(vmheap s)(a \<mapsto> v) = vmheap s" using v(1) by (simp add: fun_upd_idem)
  then have un: "VMInfoUnref E a (s1\<lparr>lock := True\<rparr>) = Some (s\<lparr>lock := True\<rparr>)"
    using VMInfoUnref_shared [of "s1\<lparr>lock := True\<rparr>" a "v\<lparr>refcount := 2\<rparr>" E]
    by (simp add: s1 in_s32_def v1)
  have put: "PutUnrefVMInfo E (Some a) s1 = Some s"
    using un assms(3) by (simp add: PutUnrefVMInfo_def mutex s1)
  have ok: "vm_ok (v\<lparr>refcount := 2\<rparr>)"
    using vmlist_invD(4) [OF assms(1) v(1)]
    by (auto simp: vm_ok_def vm_typed_def balloon_flags_ok_def in_s32_def)
  have inv1: "vmlist_inv s1" using vmlist_inv_upd [OF assms(1) v(1) ok] by (simp add: s1)
  obtain r where r: "find_vm (\<lambda>v. map_option (\<lambda>n. n = name) (domname v)) (domainsListHead s1) (vmheap s1) = Some r"
    using find_name [OF inv1] by blast
  have "\<exists>s2. FindDeleteVMFromList E name s1 = Some s2 \<and> a \<in> set (domainsListHead s2) \<and> vmheap s2 a \<noteq> None"
  proof (cases "r = Some a")
    case True
    with r un assms(3) v show ?thesis by (simp add: FindDeleteVMFromList_def mutex s1)
  next
    case False
    with r assms(3) v(3) show ?thesis by (intro FindDelete_others [OF inv1]) (simp_all add: s1)
  qed
  with put show ?thesis by blast
qed

section \<open>Instances\<close>

text \<open>A list with one VM, and an environment in which a second one can be added.\<close>

definition demo_vm :: VirtualMachineInfo where
  "demo_vm = (fresh_vm 7)\<lparr>vdom := Some 3, domname := Some ''vm'', memory := 8388608,
     currentMem := 8388608, state := 1\<rparr>"

definition demo_state :: "ref_world mstate" where
  "demo_state = (init_mstate (0, []))\<lparr>g_libvirtConn := Some 0, domainsListHead := [10], count := 1,
     vmheap := [10 \<mapsto> demo_vm]\<rparr>"

definition demo_ext :: "ref_world ext" where
  "demo_ext = ref_ext\<lparr>
     virDomainLookupByID := (\<lambda>_ i w. (Some 4, w)),
     virDomainGetName := (\<lambda>_ w. (Some ''two'', w)),
     virDomainGetInfo := (\<lambda>_ w. ((0, \<lparr>info_state = 1, info_maxMem = 4194304, info_memory = 4194304\<rparr>), w)),
     calloc_vm := (\<lambda>used w. (if used 11 then None else Some 11, w))\<rparr>"

lemma demo_vm_ok: "vm_ok demo_vm"
  by (simp add: demo_vm_def fresh_vm_def zero_vm_def vm_ok_def vm_typed_def balloon_flags_ok_def
      in_s32_def in_s64_def)

lemma demo_state_inv: "vmlist_inv demo_state" "sole_refs demo_state" "\<not> lock demo_state"
  using demo_vm_ok
  by (auto simp: vmlist_inv_def sole_refs_def demo_state_def init_mstate_def vms_def in_s32_def
      demo_vm_def fresh_vm_def zero_vm_def split: if_splits)

lemma demo_ext_ok: "calloc_ok demo_ext" "strtok_s_ok demo_ext"
  using securec_okD(5) [OF ref_ext_securec]
  by (auto simp: demo_ext_def calloc_ok_def strtok_s_ok_def split: if_splits)

lemma demo_reg: "reg demo_state = [(7, ''vm'')]"
  by (simp add: reg_def reg_of_def vms_def demo_state_def demo_vm_def fresh_vm_def zero_vm_def)

theorem FreeAllVM_empties_witness:
  "domainsListHead demo_state \<noteq> [] \<and>
   (\<exists>s'. FreeAllVM ref_ext demo_state = Some s' \<and> domainsListHead s' = [] \<and>
     vmheap s' = Map.empty \<and> count s' = 0 \<and> \<not> lock s')"
  using FreeAllVM_empties [OF demo_state_inv] by (simp add: demo_state_def)

theorem FindDeleteVMFromList_refines_witness:
  "\<exists>s'. FindDeleteVMFromList ref_ext ''vm'' demo_state = Some s' \<and> reg s' = []"
  using FindDeleteVMFromList_refines [OF demo_state_inv, of ref_ext "''vm''"] demo_reg by auto

lemma demo_admit: "admit demo_ext 8 demo_state = Some ''two''"
  by (simp add: admit_def demo_ext_def ref_ext_def demo_state_def init_mstate_def init_globals_def
      InitAndCheckVM_def LookupDomByID_def GetDomainName_def CopyString_def CheckVMHasHugePage_def
      CheckVMIsWindows_def CheckString_def GetQEMUPidByVMName_def GetOneLineFromFile_def
      QEMU_PID_DIR_def UpdateVmInfo_def GetVmInfo_def Let_def fresh_vm_def zero_vm_def)

theorem FindAddVMToList_refines_witness:
  "\<exists>s'. FindAddVMToList demo_ext 8 demo_state = Some s' \<and> reg s' = [(8, ''two''), (7, ''vm'')]"
proof -
  have "in_s32 (count demo_state + 1)" by (simp add: demo_state_def in_s32_def)
  from FindAddVMToList_refines [OF demo_ext_ok demo_state_inv(1,3) this, of 8]
  show ?thesis by (auto simp: demo_admit demo_reg reg_add_def)
qed

lemma demo_getref:
  "GetRefVMInfoByDomid 7 demo_state =
     Some (Some 10, demo_state\<lparr>vmheap := [10 \<mapsto> demo_vm\<lparr>refcount := 2\<rparr>]\<rparr>)"
  by (simp add: GetRefVMInfoByDomid_def demo_state_def init_mstate_def mutex VMInfoRef_def put_vm_def
      demo_vm_def fresh_vm_def zero_vm_def wrap32_def)

theorem reference_protects_witness:
  "\<exists>s2. FindDeleteVMFromList ref_ext ''vm'' (demo_state\<lparr>vmheap := [10 \<mapsto> demo_vm\<lparr>refcount := 2\<rparr>]\<rparr>) = Some s2 \<and>
     10 \<in> set (domainsListHead s2)"
  using reference_protects [OF demo_state_inv demo_getref, of ref_ext "''vm''"] by blast

end
