(* ===== verification/Libvirt_Stats.thy ===== *)
theory Libvirt_Stats
  imports Vmlist
begin

text \<open>
  src/libvirt_helper.c: the statistics of all VMs, fetched with one call and distributed over the
  records of the list. The caller holds the list lock.
\<close>

section \<open>Operations\<close>

text \<open>
  The search asks libvirt for the id again at every VM. The id is \<open>unsigned int\<close>, so the
  comparison converts \<open>domid\<close>.
\<close>

fun scan_dom ::
    "'w ext \<Rightarrow> nat \<Rightarrow> addr list \<Rightarrow> (addr \<rightharpoonup> VirtualMachineInfo) \<Rightarrow> 'w \<Rightarrow> (addr option \<times> 'w) option" where
  "scan_dom E d [] h w = Some (None, w)"
| "scan_dom E d (a # as) h w =
     do { v \<leftarrow> h a;
          let (i, w1) = virDomainGetID E (Some d) w;
          if word_of_int (domid v) = i then Some (Some a, w1) else scan_dom E d as h w1 }"

definition GetVMByDom :: "'w ext \<Rightarrow> nat \<Rightarrow> 'w mstate \<Rightarrow> (addr option \<times> 'w mstate) option" where
  "GetVMByDom E d s =
     do { (found, w) \<leftarrow> scan_dom E d (domainsListHead s) (vmheap s) (world s);
          Some (found, s\<lparr>world := w\<rparr>) }"

text \<open>One turn of the loop over the parameters of a record.\<close>

definition apply_param :: "vir_param \<Rightarrow> VirtualMachineInfo \<Rightarrow> VirtualMachineInfo" where
  "apply_param p v =
     (let m = memstat v; x = value_ul p in
      if pfield p = ''state.state'' then v\<lparr>state := wrap16 (value_i p)\<rparr>
      else if pfield p = ''balloon.current'' then
        v\<lparr>currentMem := sint x, memstat := m\<lparr>actualBalloon := x\<rparr>\<rparr>
      else if pfield p = ''balloon.maximum'' then v\<lparr>memory := sint x\<rparr>
      else if pfield p = ''balloon.available'' then v\<lparr>memstat := m\<lparr>available := x\<rparr>\<rparr>
      else if pfield p = ''balloon.usable'' then v\<lparr>memstat := m\<lparr>usable := x\<rparr>\<rparr>
      else if pfield p = ''balloon.unused'' then v\<lparr>memstat := m\<lparr>unused := x\<rparr>\<rparr>
      else if pfield p = ''balloon.rss'' then v\<lparr>memstat := m\<lparr>rss := x\<rparr>\<rparr>
      else if pfield p = ''balloon.disk_caches'' then
        (if 0 < and x ENABLED_FPR_FLAG then v\<lparr>enable_fpr := True\<rparr> else v)
      else v)"

text \<open>The name is fetched for a debug message only.\<close>

definition GetOneDomainStats :: "'w ext \<Rightarrow> vir_record \<Rightarrow> 'w mstate \<Rightarrow> 'w mstate option" where
  "GetOneDomainStats E r s =
     (let (name, w) = virDomainGetName E (Some (rec_dom r)) (world s) in
      do { (found, s1) \<leftarrow> GetVMByDom E (rec_dom r) (s\<lparr>world := w\<rparr>);
           case found of
             None \<Rightarrow> Some s1
           | Some a \<Rightarrow> on_vm a (\<lambda>v w. Some (fold apply_param (rec_params r) v, w)) s1 })"

definition ClearAllDomainStats :: "'w mstate \<Rightarrow> 'w mstate option" where
  "ClearAllDomainStats s = sweep (\<lambda>v w. Some (clear_stats v, w)) s"

definition GetAllDomainsStats :: "'w ext \<Rightarrow> 'w mstate \<Rightarrow> 'w mstate option" where
  "GetAllDomainsStats E s =
     (case g_libvirtConn s of
       None \<Rightarrow> Some s
     | Some c \<Rightarrow>
        do { s1 \<leftarrow> ClearAllDomainStats s;
             let ((ret, recs), w) = virConnectGetAllDomainStats E c (world s1);
             let s2 = s1\<lparr>world := w\<rparr>;
             s3 \<leftarrow> (if ret < 0 then Some s2 else foreach (GetOneDomainStats E) recs s2);
             Some (s3\<lparr>world := virDomainStatsRecordListFree E recs (world s3)\<rparr>) })"

section \<open>What they keep\<close>

lemma clear_stats_ok: "vm_ok v \<Longrightarrow> vm_ok (clear_stats v) \<and> same_vm v (clear_stats v)"
  by (simp add: clear_stats_def vm_ok_def vm_typed_def balloon_flags_ok_def same_vm_def)

lemma apply_param_ok: "vm_ok v \<Longrightarrow> vm_ok (apply_param p v) \<and> same_vm v (apply_param p v)"
  by (simp add: apply_param_def Let_def vm_ok_def vm_typed_def balloon_flags_ok_def same_vm_def)

lemma fold_param_ok: "vm_ok v \<Longrightarrow> vm_ok (fold apply_param ps v) \<and> same_vm v (fold apply_param ps v)"
proof (induction ps arbitrary: v)
  case Nil
  then show ?case by simp
next
  case (Cons p ps)
  from apply_param_ok [OF Cons.prems, of p] Cons.IH [of "apply_param p v"] show ?case
    by (auto intro: same_vm_trans)
qed

text \<open>A loop that only computes is a map over the records.\<close>

lemma pure_sweep:
  fixes s :: "'w mstate"
  assumes "vm_step (\<lambda>v (w :: 'w). Some (h v, w))" and "vmlist_inv s" and "sweep (\<lambda>v w. Some (h v, w)) s = Some s'"
  shows "vms s' = map h (vms s)" and "world s' = world s"
proof -
  have "list_all2 (\<lambda>v v'. \<exists>w (w' :: 'w). Some (h v, w) = Some (v', w')) (vms s) (vms s')"
    by (rule vm_step.sweep_ok(5) [OF assms])
  then show "vms s' = map h (vms s)"
    by (auto simp: list_all2_conv_all_nth intro: nth_equalityI)
  have "foreach (\<lambda>a. on_vm a (\<lambda>v w. Some (h v, w))) as t = Some t' \<Longrightarrow> world t' = world t" for as t t'
    by (induction as arbitrary: t) (auto simp: on_vm_def split: Option.bind_splits)
  then show "world s' = world s" using assms(3) by (simp add: sweep_def)
qed

interpretation clear_step: vm_step_total "\<lambda>v w. Some (clear_stats v, w)" "\<lambda>_. True"
  by unfold_locales (auto dest: clear_stats_ok)

interpretation param_step: vm_step_total "\<lambda>v w. Some (fold apply_param ps v, w)" "\<lambda>_. True" for ps
  by unfold_locales (auto dest: fold_param_ok)

lemma scan_dom_total:
  "(\<And>a. a \<in> set as \<Longrightarrow> h a \<noteq> None) \<Longrightarrow> \<exists>r w'. scan_dom E d as h w = Some (r, w')"
proof (induction as arbitrary: w)
  case Nil
  then show ?case by simp
next
  case (Cons a as)
  then obtain v where "h a = Some v" by fastforce
  with Cons show ?case by (auto split: prod.splits)
qed

lemma scan_dom_mem: "scan_dom E d as h w = Some (Some a, w') \<Longrightarrow> a \<in> set as"
  by (induction as arbitrary: w) (auto split: prod.splits if_splits Option.bind_splits)

lemma GetOneDomainStats_inv:
  assumes "vmlist_inv s"
  shows "\<exists>s'. GetOneDomainStats E r s = Some s' \<and> vmlist_inv s' \<and> list_frame s s' \<and>
    domainsListHead s' = domainsListHead s"
proof -
  obtain name w where n: "virDomainGetName E (Some (rec_dom r)) (world s) = (name, w)" by fastforce
  obtain found w' where f: "scan_dom E (rec_dom r) (domainsListHead s) (vmheap s) w = Some (found, w')"
    using scan_dom_total [of "domainsListHead s" "vmheap s"] vmlist_inv_heap [OF assms] by fastforce
  show ?thesis
  proof (cases found)
    case None
    with f n assms show ?thesis
      by (simp add: GetOneDomainStats_def GetVMByDom_def list_frame_def)
  next
    case (Some a)
    have inv: "vmlist_inv (s\<lparr>world := w'\<rparr>)" using assms by simp
    from scan_dom_mem f Some have "a \<in> set (domainsListHead s)" by fast
    then obtain v where "vmheap s a = Some v" using vmlist_inv_heap [OF assms] by blast
    then obtain s' where s': "on_vm a (\<lambda>v w. Some (fold apply_param (rec_params r) v, w)) (s\<lparr>world := w'\<rparr>) = Some s'"
      by (simp add: on_vm_def)
    from param_step.on_vm_ok [OF inv s'] s' f n Some show ?thesis
      by (simp add: GetOneDomainStats_def GetVMByDom_def list_frame_def)
  qed
qed

lemma GetAllDomainsStats_inv:
  assumes "vmlist_inv s"
  shows "\<exists>s'. GetAllDomainsStats E s = Some s' \<and> vmlist_inv s' \<and> list_frame s s' \<and>
    domainsListHead s' = domainsListHead s"
proof (cases "g_libvirtConn s")
  case None
  with assms show ?thesis by (simp add: GetAllDomainsStats_def)
next
  case (Some c)
  obtain s1 where s1: "ClearAllDomainStats s = Some s1"
    using clear_step.sweep_runs [OF assms] by (auto simp: ClearAllDomainStats_def)
  note cl = clear_step.sweep_ok(1-3) [OF assms s1 [unfolded ClearAllDomainStats_def]]
  obtain ret recs w where c: "virConnectGetAllDomainStats E c (world s1) = ((ret, recs), w)" by (metis surj_pair)
  let ?I = "\<lambda>t. vmlist_inv t \<and> list_frame s t \<and> domainsListHead t = domainsListHead s"
  have start: "?I (s1\<lparr>world := w\<rparr>)" using cl by (simp add: list_frame_def)
  have "\<exists>t'. GetOneDomainStats E r t = Some t' \<and> ?I t'" if "?I t" for r t
    using GetOneDomainStats_inv [of t E r] that by (metis list_frame_trans)
  with start have "\<exists>s'. foreach (GetOneDomainStats E) recs (s1\<lparr>world := w\<rparr>) = Some s' \<and> ?I s'"
    by (intro foreach_keeps) blast+
  then obtain s' where "foreach (GetOneDomainStats E) recs (s1\<lparr>world := w\<rparr>) = Some s'" "?I s'" by blast
  with start Some s1 c show ?thesis
    by (cases "ret < 0") (simp_all add: GetAllDomainsStats_def Let_def list_frame_def)
qed

section \<open>What a VM gets\<close>

text \<open>
  The reference: a VM starts from cleared statistics and takes in, in order, the records that
  carry its id. An id belongs to the domain and does not change during the pass.
\<close>

definition ids_ok :: "'w ext \<Rightarrow> (nat \<Rightarrow> 32 word) \<Rightarrow> bool" where
  "ids_ok E ids \<longleftrightarrow> (\<forall>d w. fst (virDomainGetID E (Some d) w) = ids d)"

definition absorb :: "(nat \<Rightarrow> 32 word) \<Rightarrow> vir_record \<Rightarrow> VirtualMachineInfo \<Rightarrow> VirtualMachineInfo" where
  "absorb ids r v =
     (if word_of_int (domid v) = ids (rec_dom r) then fold apply_param (rec_params r) v else v)"

lemma absorb_ok: "vm_ok v \<Longrightarrow> vm_ok (absorb ids r v) \<and> same_vm v (absorb ids r v)"
  using fold_param_ok [of v "rec_params r"] by (simp add: absorb_def)

lemma scan_dom_spec:
  assumes "ids_ok E ids" and "scan_dom E d as h w = Some (r, w')"
    and "\<And>a b u v. a \<in> set as \<Longrightarrow> b \<in> set as \<Longrightarrow> h a = Some u \<Longrightarrow> h b = Some v \<Longrightarrow>
      (word_of_int (domid u) :: 32 word) = word_of_int (domid v) \<Longrightarrow> a = b"
    and "b \<in> set as" and "h b = Some v"
  shows "word_of_int (domid v) = ids d \<longleftrightarrow> r = Some b"
  using assms
proof (induction as arbitrary: w)
  case Nil
  then show ?case by simp
next
  case (Cons a as)
  from Cons.prems(2) obtain u where u: "h a = Some u" by (auto split: Option.bind_splits)
  obtain w1 where g: "virDomainGetID E (Some d) w = (ids d, w1)"
    using Cons.prems(1) by (metis ids_ok_def prod.collapse)
  show ?case
  proof (cases "word_of_int (domid u) = ids d")
    case True
    with Cons.prems(2) u g have "r = Some a" by simp
    with True Cons.prems(3) [of a b u v] Cons.prems(4,5) u show ?thesis by auto
  next
    case False
    with Cons.prems(2) u g have t: "scan_dom E d as h w1 = Some (r, w')" by simp
    show ?thesis
    proof (cases "b \<in> set as")
      case True
      with Cons.IH [OF Cons.prems(1) t _ True Cons.prems(5)] Cons.prems(3) show ?thesis by simp
    next
      case F: False
      with Cons.prems(4,5) u have "b = a" "v = u" by auto
      with scan_dom_mem [of E d as h w1 a w'] F t False show ?thesis by auto
    qed
  qed
qed

definition ids_distinct :: "'w mstate \<Rightarrow> bool" where
  "ids_distinct s \<longleftrightarrow> (\<forall>v \<in> set (vms s). in_s32 (domid v))"

lemma word32_eq: "in_s32 i \<Longrightarrow> in_s32 j \<Longrightarrow> (word_of_int i :: 32 word) = word_of_int j \<Longrightarrow> i = j"
proof -
  assume i: "in_s32 i" and j: "in_s32 j" and e: "(word_of_int i :: 32 word) = word_of_int j"
  have "sint (word_of_int k :: 32 word) = k" if "in_s32 k" for k
    using that by (simp add: in_s32_def signed_of_int signed_take_bit_int_eq_self)
  with i j e show "i = j" by metis
qed

lemma word_domid_inj:
  assumes "vmlist_inv s" and "ids_distinct s" and "vmheap s a = Some u" and "vmheap s b = Some v"
    and "(word_of_int (domid u) :: 32 word) = word_of_int (domid v)"
  shows "a = b"
proof -
  have mem: "a \<in> set (domainsListHead s)" "b \<in> set (domainsListHead s)"
    using assms(3,4) vmlist_invD(2) [OF assms(1)] by auto
  then have "u \<in> set (vms s)" "v \<in> set (vms s)"
    using assms(3,4) by (auto simp: vms_def intro: image_eqI [of _ _ a] image_eqI [of _ _ b])
  with assms(2,5) have "domid u = domid v" by (auto simp: ids_distinct_def intro: word32_eq)
  moreover have "inj_on (\<lambda>a. domid (the (vmheap s a))) (set (domainsListHead s))"
    using vmlist_invD(5) [OF assms(1)] by (simp add: vms_def distinct_map comp_def)
  ultimately show ?thesis using mem assms(3,4) inj_onD [of _ _ a b] by fastforce
qed

lemma GetOneDomainStats_absorb:
  assumes "vmlist_inv s" and "ids_distinct s" and "ids_ok E ids" and "GetOneDomainStats E r s = Some s'"
  shows "vmheap s' = (\<lambda>b. map_option (absorb ids r) (vmheap s b))"
proof -
  obtain name w where n: "virDomainGetName E (Some (rec_dom r)) (world s) = (name, w)" by fastforce
  with assms(4) obtain found w' where f: "scan_dom E (rec_dom r) (domainsListHead s) (vmheap s) w = Some (found, w')"
    and s': "(case found of None \<Rightarrow> Some (s\<lparr>world := w'\<rparr>)
      | Some a \<Rightarrow> on_vm a (\<lambda>v w. Some (fold apply_param (rec_params r) v, w)) (s\<lparr>world := w'\<rparr>)) = Some s'"
    by (auto simp: GetOneDomainStats_def GetVMByDom_def split: Option.bind_splits)
  have hit: "word_of_int (domid v) = ids (rec_dom r) \<longleftrightarrow> found = Some b" if "vmheap s b = Some v" for b v
  proof (rule scan_dom_spec [OF assms(3) f _ _ that])
    show "b \<in> set (domainsListHead s)" using that vmlist_invD(2) [OF assms(1)] by auto
  qed (use word_domid_inj [OF assms(1,2)] in blast)
  show ?thesis
  proof
    fix b
    show "vmheap s' b = map_option (absorb ids r) (vmheap s b)"
    proof (cases "vmheap s b")
      case None
      with s' show ?thesis by (auto simp: on_vm_def split: option.splits Option.bind_splits)
    next
      case (Some v)
      with s' hit [OF Some] show ?thesis
        by (auto simp: on_vm_def absorb_def split: option.splits Option.bind_splits)
    qed
  qed
qed

lemma ids_distinct_step:
  assumes "vmlist_inv s" and "ids_distinct s" and "domainsListHead s' = domainsListHead s"
    and "\<And>a v. vmheap s a = Some v \<Longrightarrow> \<exists>v'. vmheap s' a = Some v' \<and> domid v' = domid v"
  shows "ids_distinct s'"
proof -
  have "in_s32 (domid (the (vmheap s' a)))" if a: "a \<in> set (domainsListHead s)" for a
  proof -
    obtain v where v: "vmheap s a = Some v" using a vmlist_inv_heap [OF assms(1)] by blast
    with a assms(2) have "in_s32 (domid v)" by (force simp: ids_distinct_def vms_def)
    with assms(4) [OF v] show ?thesis by auto
  qed
  then show ?thesis by (auto simp: ids_distinct_def vms_def assms(3))
qed

lemma foreach_absorb:
  assumes "vmlist_inv s" and "ids_distinct s" and "ids_ok E ids"
    and "foreach (GetOneDomainStats E) recs s = Some s'"
  shows "vmheap s' = (\<lambda>b. map_option (fold (absorb ids) recs) (vmheap s b))"
  using assms
proof (induction recs arbitrary: s)
  case Nil
  then show ?case by (simp add: option.map_id0 [unfolded id_def] option.map_ident)
next
  case (Cons r recs)
  then obtain s1 where s1: "GetOneDomainStats E r s = Some s1" "foreach (GetOneDomainStats E) recs s1 = Some s'"
    by (auto split: Option.bind_splits)
  from GetOneDomainStats_inv [OF Cons.prems(1), of E r] s1(1) have
    inv: "vmlist_inv s1" "domainsListHead s1 = domainsListHead s" by auto
  note h = GetOneDomainStats_absorb [OF Cons.prems(1-3) s1(1)]
  have "ids_distinct s1"
    using ids_distinct_step [OF Cons.prems(1,2) inv(2)] vmlist_invD(4) [OF Cons.prems(1)]
      absorb_ok by (simp add: h same_vm_def)
  from Cons.IH [OF inv(1) this Cons.prems(3) s1(2)] show ?case
    by (simp add: h option.map_comp comp_def)
qed

lemma ClearAllDomainStats_heap:
  assumes "vmlist_inv s"
  obtains s1 where "ClearAllDomainStats s = Some s1" "vmlist_inv s1" "domainsListHead s1 = domainsListHead s"
    "world s1 = world s" "\<And>a. vmheap s1 a = map_option clear_stats (vmheap s a)"
proof -
  obtain s1 where s1: "ClearAllDomainStats s = Some s1"
    using clear_step.sweep_runs [OF assms] by (auto simp: ClearAllDomainStats_def)
  note sw = s1 [unfolded ClearAllDomainStats_def]
  note cl = clear_step.sweep_ok(1-3) [OF assms sw]
  have "vmheap s1 a = map_option clear_stats (vmheap s a)" for a
  proof (cases "a \<in> set (domainsListHead s)")
    case True
    with clear_step.foreach_ok [OF assms vmlist_invD(1) [OF assms] sw [unfolded sweep_def]]
    show ?thesis by force
  next
    case False
    with vmlist_invD(2) [OF assms] vmlist_invD(2) [OF cl(1)] cl(3) have
      "vmheap s a = None" "vmheap s1 a = None" by auto
    then show ?thesis by simp
  qed
  with that s1 cl(1,3) pure_sweep(2) [OF clear_step.vm_step_axioms assms sw] show ?thesis by blast
qed

lemma GetAllDomainsStats_absorbs:
  assumes "vmlist_inv s" and "ids_distinct s" and "ids_ok E ids" and "g_libvirtConn s = Some c"
    and r: "virConnectGetAllDomainStats E c (world s) = ((ret, recs), w)"
  shows "\<exists>s'. GetAllDomainsStats E s = Some s' \<and> domainsListHead s' = domainsListHead s \<and>
    vmheap s' = (\<lambda>a. map_option (\<lambda>v. if ret < 0 then clear_stats v
                                      else fold (absorb ids) recs (clear_stats v)) (vmheap s a))"
proof -
  obtain s1 where s1: "ClearAllDomainStats s = Some s1" "vmlist_inv s1" "domainsListHead s1 = domainsListHead s"
    "world s1 = world s" and h1: "\<And>a. vmheap s1 a = map_option clear_stats (vmheap s a)"
    using ClearAllDomainStats_heap [OF assms(1)] by blast
  let ?s2 = "s1\<lparr>world := w\<rparr>"
  have inv2: "vmlist_inv ?s2" using s1(2) by simp
  have ids2: "ids_distinct ?s2"
    using ids_distinct_step [OF assms(1,2), of ?s2] s1(3) by (auto simp: h1 clear_stats_def)
  obtain s' where s': "GetAllDomainsStats E s = Some s'" "domainsListHead s' = domainsListHead s"
    using GetAllDomainsStats_inv [OF assms(1), of E] by blast
  have "vmheap s' = (if ret < 0 then vmheap s1 else (\<lambda>b. map_option (fold (absorb ids) recs) (vmheap s1 b)))"
  proof (cases "ret < 0")
    case False
    with s'(1) assms(4) s1 r obtain s3 where "foreach (GetOneDomainStats E) recs ?s2 = Some s3"
      "vmheap s' = vmheap s3" by (auto simp: GetAllDomainsStats_def split: Option.bind_splits)
    with False foreach_absorb [OF inv2 ids2 assms(3)] show ?thesis by simp
  qed (use s'(1) assms(4) s1 r in \<open>auto simp: GetAllDomainsStats_def\<close>)
  with s' show ?thesis by (auto simp: h1 option.map_comp comp_def)
qed


section \<open>Instances\<close>

definition stats_record :: vir_record where
  "stats_record = \<lparr>rec_dom = 3, rec_params =
     [\<lparr>pfield = ''state.state'', praw = 1\<rparr>, \<lparr>pfield = ''balloon.current'', praw = 8388608\<rparr>,
      \<lparr>pfield = ''balloon.maximum'', praw = 8388608\<rparr>, \<lparr>pfield = ''balloon.available'', praw = 8000000\<rparr>,
      \<lparr>pfield = ''balloon.usable'', praw = 7000000\<rparr>]\<rparr>"

definition stats_ext :: "ref_world ext" where
  "stats_ext = ref_ext\<lparr>virDomainGetID := (\<lambda>_ w. (7, w)),
     virConnectGetAllDomainStats := (\<lambda>_ w. ((1, [stats_record]), w))\<rparr>"


end
