(* ===== verification/Util_Sync.thy ===== *)
theory Util_Sync
  imports Environment
begin

text \<open>
  src/util.c: sleeping, semaphores with a deadline and thread creation. The clock, the semaphore
  and the thread library are external; what is modelled is the time arithmetic, the retry loop
  and the signal mask of the calling thread.
\<close>

section \<open>Sleeping\<close>

abbreviation (input) S_TO_NS_RATE :: int where "S_TO_NS_RATE \<equiv> 1000000000"

text \<open>The loop that borrows seconds while the nanoseconds are negative.\<close>

function borrow_ns :: "int \<Rightarrow> int \<Rightarrow> (int \<times> int) option" where
  "borrow_ns sec nsec =
     (if nsec < 0 then
        do { sec' \<leftarrow> ck64 (sec - 1);
             nsec' \<leftarrow> ck64 (nsec + S_TO_NS_RATE);
             borrow_ns sec' nsec' }
      else Some (sec, nsec))"
  by pat_completeness auto
termination
  by (relation "measure (\<lambda>(s, n). nat (- n))") auto

declare borrow_ns.simps [simp del]

definition SleepApprox :: "'w ext \<Rightarrow> int \<Rightarrow> 'w \<Rightarrow> 'w option" where
  "SleepApprox E seconds w =
     (let ((r, tv_sec, tv_usec), w1) = gettimeofday E w in
      do { neg \<leftarrow> ck64 (- tv_usec);
           nsec \<leftarrow> ck64 (neg * 1000);
           ts \<leftarrow> borrow_ns seconds nsec;
           Some (snd (nanosleep E ts w1)) })"

text \<open>The clock's documented range: a \<open>timeval\<close> holds less than a second in its microseconds.\<close>

definition clock_ok :: "'w ext \<Rightarrow> bool" where
  "clock_ok E \<longleftrightarrow> (\<forall>w. case gettimeofday E w of ((r, s, us), w1) \<Rightarrow>
     0 \<le> us \<and> us < 1000000 \<and> 0 \<le> s \<and> s < 4611686018427387904)"

lemma clock_okD:
  assumes "clock_ok E" and "gettimeofday E w = ((r, s, us), w1)"
  shows "0 \<le> us" and "us < 1000000" and "0 \<le> s" and "s < 4611686018427387904"
  using assms(1) [unfolded clock_ok_def, rule_format, of w] assms(2) by simp_all

lemma borrow_ns_once:
  assumes "in_s64 (sec - 1)" and "- 1000000000 \<le> nsec" and "nsec < 0"
  shows "borrow_ns sec nsec = Some (sec - 1, nsec + 1000000000)"
proof -
  have "borrow_ns (sec - 1) (nsec + 1000000000) = Some (sec - 1, nsec + 1000000000)"
    using assms(2) by (simp add: borrow_ns.simps)
  with assms show ?thesis by (subst borrow_ns.simps) (simp add: in_s64_def)
qed

text \<open>Borrowing keeps the duration and ends with a normalised time.\<close>

lemma borrow_ns_value:
  "borrow_ns sec nsec = Some (sec', nsec') \<Longrightarrow>
   sec' * 1000000000 + nsec' = sec * 1000000000 + nsec \<and> 0 \<le> nsec' \<and>
   (nsec < 1000000000 \<longrightarrow> nsec' < 1000000000)"
proof (induction sec nsec rule: borrow_ns.induct)
  case (1 sec nsec)
  show ?case
  proof (cases "nsec < 0")
    case True
    with 1(2) have "borrow_ns (sec - 1) (nsec + 1000000000) = Some (sec', nsec')"
      and c: "ck64 (sec - 1) = Some (sec - 1)" "ck64 (nsec + 1000000000) = Some (nsec + 1000000000)"
      by (subst (asm) borrow_ns.simps; auto split: Option.bind_splits)+
    from 1(1) [OF True c this(1)] True show ?thesis by simp
  next
    case False
    with 1(2) show ?thesis by (simp add: borrow_ns.simps)
  qed
qed

text \<open>
  C36: \<open>SleepApprox n\<close> sleeps to a second boundary. The duration it asks for, added to the time of
  day it has read, is exactly \<open>n\<close> seconds after the start of the current second, and the
  \<open>timespec\<close> has less than a second in its nanoseconds.
\<close>

theorem SleepApprox_boundary:
  assumes "clock_ok E" and "in_s32 n" and "gettimeofday E w = ((r, s, us), w1)"
  shows "\<exists>sec nsec. SleepApprox E n w = Some (snd (nanosleep E (sec, nsec) w1)) \<and>
    sec * 1000000000 + nsec + us * 1000 = n * 1000000000 \<and> 0 \<le> nsec \<and> nsec < 1000000000"
proof -
  note us = clock_okD(1,2) [OF assms(1,3)]
  have arg: "SleepApprox E n w = do { ts \<leftarrow> borrow_ns n (- us * 1000); Some (snd (nanosleep E ts w1)) }"
    using us assms(3) by (simp add: SleepApprox_def cint)
  show ?thesis
  proof (cases "us = 0")
    case True
    then have "SleepApprox E n w = Some (snd (nanosleep E (n, 0) w1))"
      using arg by (simp add: borrow_ns.simps)
    then show ?thesis using True by (intro exI [of _ n] exI [of _ 0]) simp
  next
    case False
    with us assms(2) have "borrow_ns n (- us * 1000) = Some (n - 1, - us * 1000 + 1000000000)"
      by (intro borrow_ns_once) (simp_all add: cint)
    then have "SleepApprox E n w = Some (snd (nanosleep E (n - 1, - us * 1000 + 1000000000) w1))"
      using arg by simp
    then show ?thesis using us False
      by (intro exI [of _ "n - 1"] exI [of _ "- us * 1000 + 1000000000"]) simp
  qed
qed

section \<open>Semaphores\<close>

abbreviation (input) EINTR :: int where "EINTR \<equiv> 4"
abbreviation (input) ETIMEDOUT :: int where "ETIMEDOUT \<equiv> 110"

definition SemInit :: "'w ext \<Rightarrow> nat \<Rightarrow> 'w \<Rightarrow> int \<times> 'w" where
  "SemInit E init w = (let (rc, w1) = sem_init E init w in (if rc < 0 then -1 else 0, w1))"

definition SemPost :: "'w ext \<Rightarrow> 'w \<Rightarrow> int \<times> 'w" where
  "SemPost E w = (let (rc, w1) = sem_post E w in (if rc < 0 then -1 else rc, w1))"

definition SemDestroy :: "'w ext \<Rightarrow> 'w \<Rightarrow> int \<times> 'w" where
  "SemDestroy E w = (let (rc, w1) = sem_destroy E w in (if rc < 0 then -1 else rc, w1))"

text \<open>The deadline: now plus \<open>ms\<close>, normalised by one carry.\<close>

definition sem_deadline :: "int \<Rightarrow> int \<Rightarrow> int \<Rightarrow> (int \<times> int) option" where
  "sem_deadline tv_sec tv_usec ms =
     do { ns1 \<leftarrow> ck64 (tv_usec * 1000);
          ns2 \<leftarrow> ck32 ((ms smod 1000) * 1000000);
          nsec \<leftarrow> ck64 (ns1 + ns2);
          sec \<leftarrow> ck64 (tv_sec + ms sdiv 1000);
          if nsec \<ge> S_TO_NS_RATE then
            do { sec' \<leftarrow> ck64 (sec + 1); nsec' \<leftarrow> ck64 (nsec - S_TO_NS_RATE); Some (sec', nsec') }
          else Some (sec, nsec) }"

text \<open>\<open>do ... while (rc == -1 && errno == EINTR)\<close>: it may be interrupted for ever.\<close>

partial_function (option) sem_wait_loop :: "'w ext \<Rightarrow> int \<times> int \<Rightarrow> 'w \<Rightarrow> (int \<times> 'w) option" where
  [code]: "sem_wait_loop E ts w =
     (let (rc, w1) = sem_timedwait E ts w in
      if rc = -1 \<and> get_errno E w1 = EINTR then sem_wait_loop E ts w1 else Some (rc, w1))"

definition SemTimeWait :: "'w ext \<Rightarrow> int \<Rightarrow> 'w \<Rightarrow> (int \<times> 'w) option" where
  "SemTimeWait E ms w =
     (let ((r, tv_sec, tv_usec), w1) = gettimeofday E w in
      if r = -1 then Some (-1, w1)
      else do { ts \<leftarrow> sem_deadline tv_sec tv_usec ms;
                (rc, w2) \<leftarrow> sem_wait_loop E ts w1;
                Some (if rc = -1 \<and> get_errno E w2 = ETIMEDOUT then -1 else 0, w2) })"

lemma sem_deadline_value:
  assumes "0 \<le> us" "us < 1000000" "0 \<le> s" "s < 4611686018427387904" "0 \<le> ms" "in_s32 ms"
  shows "\<exists>sec nsec. sem_deadline s us ms = Some (sec, nsec) \<and> 0 \<le> nsec \<and> nsec < 1000000000 \<and>
    sec * 1000000000 + nsec = s * 1000000000 + us * 1000 + ms * 1000000"
proof -
  have m: "ms smod 1000 = ms mod 1000" "ms sdiv 1000 = ms div 1000"
    using assms(5) by (auto simp: signed_modulo_int_def signed_divide_int_def minus_div_mult_eq_mod sgn_if)
  define k where "k = ms mod 1000"
  define q where "q = ms div 1000"
  have kq: "ms = q * 1000 + k" "0 \<le> k" "k < 1000" by (simp_all add: k_def q_def)
  have q: "0 \<le> q" "q < 2147483648" using kq assms(5,6) by (simp_all add: in_s32_def)
  have e: "sem_deadline s us ms =
      (if us * 1000 + k * 1000000 \<ge> 1000000000
       then Some (s + q + 1, us * 1000 + k * 1000000 - 1000000000)
       else Some (s + q, us * 1000 + k * 1000000))"
    unfolding sem_deadline_def m k_def [symmetric] q_def [symmetric]
    using assms(1-4) kq(2,3) q by (simp add: cint)
  show ?thesis
  proof (cases "us * 1000 + k * 1000000 \<ge> 1000000000")
    case True
    with e assms(1,2) kq show ?thesis
      by (intro exI [of _ "s + q + 1"] exI [of _ "us * 1000 + k * 1000000 - 1000000000"]) simp
  next
    case False
    with e assms(1,2) kq show ?thesis
      by (intro exI [of _ "s + q"] exI [of _ "us * 1000 + k * 1000000"]) simp
  qed
qed

text \<open>
  The wait ends when the kernel interrupts it only finitely often: after \<open>n\<close> interruptions the
  call returns something else.
\<close>

fun interrupted :: "'w ext \<Rightarrow> int \<times> int \<Rightarrow> nat \<Rightarrow> 'w \<Rightarrow> bool" where
  "interrupted E ts 0 w =
     (let (rc, w1) = sem_timedwait E ts w in \<not> (rc = -1 \<and> get_errno E w1 = EINTR))"
| "interrupted E ts (Suc n) w =
     (let (rc, w1) = sem_timedwait E ts w in rc = -1 \<and> get_errno E w1 = EINTR \<and> interrupted E ts n w1)"

lemma sem_wait_loop_returns:
  "interrupted E ts n w \<Longrightarrow>
   \<exists>rc w'. sem_wait_loop E ts w = Some (rc, w') \<and> \<not> (rc = -1 \<and> get_errno E w' = EINTR)"
proof (induction n arbitrary: w)
  case 0
  then show ?case by (subst sem_wait_loop.simps) (auto split: prod.splits)
next
  case (Suc n)
  obtain rc w1 where c: "sem_timedwait E ts w = (rc, w1)" by fastforce
  with Suc.prems have "rc = -1" "get_errno E w1 = EINTR" "interrupted E ts n w1" by auto
  with Suc.IH c show ?case by (subst sem_wait_loop.simps) simp
qed

text \<open>
  C35: \<open>SemTimeWait\<close> waits until exactly \<open>ms\<close> milliseconds after the time it has read, given as a
  normalised \<open>timespec\<close>; interruptions by signals restart the wait with the same deadline, and
  when they stop it returns, with -1 for a timeout and 0 for everything else.
\<close>

theorem SemTimeWait_deadline:
  assumes "clock_ok E" and "0 \<le> ms" and "in_s32 ms"
    and "gettimeofday E w = ((r, s, us), w1)" and "r \<noteq> -1"
    and "\<And>ts. \<exists>n. interrupted E ts n w1"
  shows "\<exists>sec nsec rc w2. sec * 1000000000 + nsec = s * 1000000000 + us * 1000 + ms * 1000000 \<and>
    0 \<le> nsec \<and> nsec < 1000000000 \<and>
    sem_wait_loop E (sec, nsec) w1 = Some (rc, w2) \<and> \<not> (rc = -1 \<and> get_errno E w2 = EINTR) \<and>
    SemTimeWait E ms w = Some (if rc = -1 \<and> get_errno E w2 = ETIMEDOUT then -1 else 0, w2)"
proof -
  from sem_deadline_value [OF clock_okD [OF assms(1,4)] assms(2,3)] obtain sec nsec where
    d: "sem_deadline s us ms = Some (sec, nsec)" "0 \<le> nsec" "nsec < 1000000000"
      "sec * 1000000000 + nsec = s * 1000000000 + us * 1000 + ms * 1000000" by blast
  obtain n where "interrupted E (sec, nsec) n w1" using assms(6) by blast
  from sem_wait_loop_returns [OF this] obtain rc w2 where
    l: "sem_wait_loop E (sec, nsec) w1 = Some (rc, w2)" "\<not> (rc = -1 \<and> get_errno E w2 = EINTR)" by blast
  have "SemTimeWait E ms w = Some (if rc = -1 \<and> get_errno E w2 = ETIMEDOUT then -1 else 0, w2)"
    using assms(4,5) d(1) l(1) by (simp add: SemTimeWait_def)
  with d l show ?thesis by blast
qed

section \<open>Threads\<close>

abbreviation (input) MEMLINK_THREAD_JOINABLE :: int where "MEMLINK_THREAD_JOINABLE \<equiv> 0"
abbreviation (input) MEMLINK_THREAD_DETACHED :: int where "MEMLINK_THREAD_DETACHED \<equiv> 1"

text \<open>
  The signal mask of the calling thread, the set of blocked signals, is passed and returned. The
  new thread inherits the mask at the time of \<open>pthread_create\<close>.
\<close>

type_synonym sigmask = "int \<Rightarrow> bool"

definition sigfillset :: sigmask where
  "sigfillset = (\<lambda>_. True)"

definition ThreadCreate :: "'w ext \<Rightarrow> thread_fn \<Rightarrow> int \<Rightarrow> sigmask \<Rightarrow> 'w \<Rightarrow> (int \<times> sigmask) \<times> 'w" where
  "ThreadCreate E startRoutine mode blocked w =
     (let (err, w1) = pthread_attr_init E w in
      if err \<noteq> 0 then ((-1, blocked), w1)
      else
        let (err2, w2) = (if mode = MEMLINK_THREAD_DETACHED
                          then pthread_attr_setdetachstate E w1 else (0, w1))
        in if err2 \<noteq> 0 then ((-1, blocked), w2)
           else
             let oldset = blocked;
                 (err3, w3) = pthread_create E startRoutine sigfillset w2
             in if err3 \<noteq> 0 then ((-1, sigfillset), w3)
                else ((0, oldset), w3))"


section \<open>Instances\<close>

lemma ref_ext_clock: "clock_ok ref_ext"
  by (simp add: clock_ok_def ref_ext_def)

theorem SleepApprox_boundary_witness:
  "clock_ok ref_ext \<and> (\<exists>sec nsec. SleepApprox ref_ext 2 (0, []) = Some (snd (nanosleep ref_ext (sec, nsec) (0, []))) \<and>
     sec * 1000000000 + nsec + 250000 * 1000 = 2 * 1000000000)"
  using SleepApprox_boundary [OF ref_ext_clock, of 2 "(0, [])" 0 1000 250000 "(0, [])"] ref_ext_clock
  by (auto simp: in_s32_def ref_ext_def)

lemma ref_ext_not_interrupted: "interrupted ref_ext ts 0 w"
  by (simp add: ref_ext_def)

theorem SemTimeWait_deadline_witness:
  "\<exists>sec nsec rc w2. sec * 1000000000 + nsec = 1000 * 1000000000 + 250000 * 1000 + 600000 * 1000000 \<and>
    0 \<le> nsec \<and> nsec < 1000000000 \<and>
    sem_wait_loop ref_ext (sec, nsec) (0, []) = Some (rc, w2) \<and> \<not> (rc = -1 \<and> get_errno ref_ext w2 = EINTR) \<and>
    SemTimeWait ref_ext 600000 (0, []) =
      Some (if rc = -1 \<and> get_errno ref_ext w2 = ETIMEDOUT then -1 else 0, w2)"
proof (rule SemTimeWait_deadline [OF ref_ext_clock])
  show "gettimeofday ref_ext (0, []) = ((0, 1000, 250000), (0, []))" by (simp add: ref_ext_def)
  show "\<exists>n. interrupted ref_ext ts n (0, [])" for ts using ref_ext_not_interrupted by blast
qed (simp_all add: in_s32_def)


end
