(* ===== verification/Balloon.thy ===== *)
theory Balloon
  imports Float32 Libvirt_Stats Util_Sync
begin

text \<open>
  src/memlink_core.c: the balloon logic. A pass looks at every VM once. An idle VM whose guest has
  used little memory for long enough is asked to shrink to a target (\<open>DoBallooning\<close>); a VM that is
  ballooning is watched (\<open>BalloonCheck\<close>) and, when it has reached the target or stopped moving,
  given its memory back in two steps (\<open>BalloonMainLoop\<close>).

  The usage percentage is a \<open>float\<close>: \<open>float_percent rnd32\<close> of theory Float32 rounds every operation
  as IEEE 754 single precision does.
\<close>

section \<open>Operations\<close>

text \<open>src/util.c: \<open>MIN\<close> is unsigned, \<open>MAX\<close> is signed.\<close>

definition MIN_u64 :: "u64 \<Rightarrow> u64 \<Rightarrow> u64" where
  "MIN_u64 a b = (if a < b then a else b)"

definition MAX_s64 :: "int \<Rightarrow> int \<Rightarrow> int" where
  "MAX_s64 a b = (if a > b then a else b)"

abbreviation (input) UPPER_LIMIT :: rat where "UPPER_LIMIT \<equiv> 50"
abbreviation (input) LOWER_LIMIT :: rat where "LOWER_LIMIT \<equiv> 30"
abbreviation (input) LOW_BALLOON_SIZE_KB :: int where "LOW_BALLOON_SIZE_KB \<equiv> 307200"
abbreviation (input) BALLON_TARGET_RESERVED_KBYTES :: int where "BALLON_TARGET_RESERVED_KBYTES \<equiv> 1048576"
abbreviation (input) BALLOON_BACK_RESERVED_SIZE_KB :: u64 where "BALLOON_BACK_RESERVED_SIZE_KB \<equiv> 2048"
abbreviation (input) NEED_BALLOON_CHECK_TIMES :: int where "NEED_BALLOON_CHECK_TIMES \<equiv> 20"
abbreviation (input) LOW_WATER_MARK :: u64 where "LOW_WATER_MARK \<equiv> 1024"
abbreviation (input) BALLOONBACK_LEFT :: int where "BALLOONBACK_LEFT \<equiv> -2"
abbreviation (input) SET_BALLOON_MAX :: nat where "SET_BALLOON_MAX \<equiv> 10"

text \<open>The guest's used memory and the percentage, as \<open>RecordPressure\<close> and \<open>DoBallooning\<close> compute them.\<close>

definition guestUsedMemory :: "VirtualMachineInfo \<Rightarrow> u64" where
  "guestUsedMemory v =
     (if usable (memstat v) \<noteq> 0 then available (memstat v) - usable (memstat v)
      else available (memstat v) - unused (memstat v))"

definition guestUsagePercent :: "VirtualMachineInfo \<Rightarrow> rat" where
  "guestUsagePercent v =
     float_percent rnd32 (of_nat (unat (guestUsedMemory v))) (of_nat (unat (available (memstat v))))"

definition RecordPressure :: "VirtualMachineInfo \<Rightarrow> VirtualMachineInfo" where
  "RecordPressure v =
     (if CheckVmMemoryStat (Some v) < 0 then v
      else if needBalloonFlag v = 0 \<and> \<not> ballooning v \<and> guestUsagePercent v > UPPER_LIMIT
      then v\<lparr>needBalloonFlag := 1\<rparr>
      else v)"

text \<open>
  The five assignments to \<open>balloonTarget\<close>. The first is computed in \<open>uint64_t\<close>, because
  \<open>guestTotalMemory\<close> is; the products are signed and trap on overflow.
\<close>

definition balloon_target :: "globals \<Rightarrow> VirtualMachineInfo \<Rightarrow> int option" where
  "balloon_target g v =
     do { let t0 = sint ((word_of_int (memory v) - available (memstat v)) + guestUsedMemory v);
          p1 \<leftarrow> ck64 (t0 * g_balloonTargetUsedPercent g);
          let t1 = MAX_s64 (p1 sdiv 100) BALLON_TARGET_RESERVED_KBYTES;
          p2 \<leftarrow> ck64 (memory v * g_balloonTargetMaxTotalPercent g);
          let t2 = MAX_s64 t1 (p2 sdiv 100);
          let t3 = MAX_s64 t2 (sint (minGuarantee (memparam v)));
          Some (sint (MIN_u64 (word_of_int t3) (word_of_int (memory v)))) }"

text \<open>The counter that delays the inflation.\<close>

definition count_calm :: "VirtualMachineInfo \<Rightarrow> VirtualMachineInfo option" where
  "count_calm v =
     (if guestUsagePercent v > UPPER_LIMIT then Some (v\<lparr>needBalloonFlag := 1\<rparr>)
      else if guestUsagePercent v < LOWER_LIMIT \<and> needBalloonFlag v > 0
      then do { n \<leftarrow> ck32 (needBalloonFlag v + 1); Some (v\<lparr>needBalloonFlag := n\<rparr>) }
      else Some v)"

definition DoBallooning ::
    "'w ext \<Rightarrow> globals \<Rightarrow> VirtualMachineInfo \<Rightarrow> 'w \<Rightarrow> (VirtualMachineInfo \<times> 'w) option" where
  "DoBallooning E g v w =
     (if CheckVmMemoryStat (Some v) < 0 then Some (v, w)
      else do {
        v1 \<leftarrow> count_calm v;
        if needBalloonFlag v1 \<ge> NEED_BALLOON_CHECK_TIMES then do {
          let v2 = v1\<lparr>needBalloonFlag := 0\<rparr>;
          t \<leftarrow> balloon_target g v2;
          let v3 = v2\<lparr>balloonTarget := t\<rparr>;
          if t > 0 then
            let (ret, w1) = SetVmBalloonTarget E v3 (word_of_int t) w
            in if ret = 0 then Some (v3\<lparr>ballooning := True, ballooningDown := True\<rparr>, w1)
               else Some (v3, w1)
          else Some (v3, w) }
        else Some (v1, w) })"

text \<open>
  Condition 2 of the check remembers the size in one of two slots alternately and compares them.
  The difference is signed and traps on overflow.
\<close>

definition note_size :: "VirtualMachineInfo \<Rightarrow> VirtualMachineInfo" where
  "note_size v =
     v\<lparr>currentActualBalloon := (currentActualBalloon v)[nat (balloonI v) := sint (actualBalloon (memstat v))],
       balloonI := (balloonI v + 1) smod 2\<rparr>"

definition size_moved :: "VirtualMachineInfo \<Rightarrow> int option" where
  "size_moved v =
     do { d \<leftarrow> ck64 (currentActualBalloon v ! 0 - currentActualBalloon v ! 1); ck64 \<bar>d\<bar> }"

text \<open>
  The other subtractions mix \<open>uint64_t\<close> and \<open>int64_t\<close> and are unsigned. An index outside the two
  slots would write past the array.
\<close>

definition BalloonCheck :: "VirtualMachineInfo \<Rightarrow> (int \<times> VirtualMachineInfo) option" where
  "BalloonCheck v =
     (if incompleteBalloon v then Some (-1, v)
      else if ballooningDown v then
        (if actualBalloon (memstat v) - word_of_int (balloonTarget v) < LOW_WATER_MARK then Some (-1, v)
         else if \<not> (0 \<le> balloonI v \<and> balloonI v < 2) then None
         else do { let v1 = note_size v;
                   d \<leftarrow> size_moved v1;
                   if d < LOW_BALLOON_SIZE_KB then Some (-1, v1\<lparr>needBalloonFlag := 1\<rparr>)
                   else Some (0, v1) })
      else if word_of_int (memory v) - actualBalloon (memstat v) < LOW_WATER_MARK
      then Some (0, v\<lparr>ballooning := False\<rparr>)
      else if word_of_int (memory v) - actualBalloon (memstat v) \<le> BALLOON_BACK_RESERVED_SIZE_KB
      then Some (BALLOONBACK_LEFT, v)
      else Some (0, v))"

definition back_target :: "VirtualMachineInfo \<Rightarrow> u64" where
  "back_target v = word_of_int (if memory v \<ge> 0 then memory v else BALLON_TARGET_RESERVED_KBYTES)"

text \<open>One turn of the loop of \<open>BalloonMainLoop\<close>.\<close>

definition balloon_one ::
    "'w ext \<Rightarrow> globals \<Rightarrow> VirtualMachineInfo \<Rightarrow> 'w \<Rightarrow> (VirtualMachineInfo \<times> 'w) option" where
  "balloon_one E g v w =
     (if lockall v \<or> enable_fpr v then Some (v, w)
      else if \<not> ballooning v then
        (if state v = VIR_DOMAIN_RUNNING then DoBallooning E g v w else Some (v, w))
      else if actualBalloon (memstat v) = 0 then Some (v, w)
      else do {
        (ret, v1) \<leftarrow> BalloonCheck v;
        if ret = -1 then
          let (setBalloonRet, w1) = SetVmBalloonTarget E v1 (back_target v1 - BALLOON_BACK_RESERVED_SIZE_KB) w
          in if setBalloonRet < 0 then Some (v1\<lparr>incompleteBalloon := True\<rparr>, w1)
             else Some (v1\<lparr>ballooningDown := False, balloonI := 0,
                          currentActualBalloon := [0, 0], incompleteBalloon := False\<rparr>, w1)
        else if ret = BALLOONBACK_LEFT then
          Some (v1, snd (SetVmBalloonTarget E v1 (back_target v1) w))
        else Some (v1, w) })"

definition BalloonMainLoop :: "'w ext \<Rightarrow> 'w mstate \<Rightarrow> 'w mstate option" where
  "BalloonMainLoop E s = sweep (balloon_one E (cfg s)) s"

definition UpdateAllVmInfoAndMemoryStats :: "'w ext \<Rightarrow> 'w mstate \<Rightarrow> 'w mstate option" where
  "UpdateAllVmInfoAndMemoryStats E s =
     do { s1 \<leftarrow> lock_vmlist s; s2 \<leftarrow> GetAllDomainsStats E s1; unlock_vmlist s2 }"

text \<open>The first loop of \<open>BalloonVmMemThread\<close>: a VM that lost memory elsewhere is given it back.\<close>

definition mark_incomplete :: "VirtualMachineInfo \<Rightarrow> VirtualMachineInfo" where
  "mark_incomplete v =
     (if CheckVmMemoryStat (Some v) < 0 then v
      else if \<not> ballooning v \<and> memory v > currentMem v
      then v\<lparr>ballooning := True, incompleteBalloon := True\<rparr>
      else v)"

definition record_running :: "VirtualMachineInfo \<Rightarrow> VirtualMachineInfo" where
  "record_running v = (if state v = VIR_DOMAIN_RUNNING then RecordPressure v else v)"

text \<open>
  The body of the thread's loop up to the sleep: two sections under the list lock. The search for a
  ballooning VM between the loops has no effect.
\<close>

definition balloon_section :: "'w ext \<Rightarrow> 'w mstate \<Rightarrow> 'w mstate option" where
  "balloon_section E s =
     do { s1 \<leftarrow> lock_vmlist s;
          s2 \<leftarrow> sweep (\<lambda>v w. Some (mark_incomplete v, w)) s1;
          _ \<leftarrow> find_vm (\<lambda>v. Some (ballooning v)) (domainsListHead s2) (vmheap s2);
          s3 \<leftarrow> sweep (\<lambda>v w. Some (record_running v, w)) s2;
          s4 \<leftarrow> BalloonMainLoop E s3;
          unlock_vmlist s4 }"

definition BalloonVmMemThread_body :: "'w ext \<Rightarrow> 'w mstate \<Rightarrow> 'w mstate option" where
  "BalloonVmMemThread_body E s =
     do { s1 \<leftarrow> UpdateAllVmInfoAndMemoryStats E s;
          s2 \<leftarrow> balloon_section E s1;
          w \<leftarrow> SleepApprox E 2 (world s2);
          Some (s2\<lparr>world := w\<rparr>) }"

text \<open>Leaving: up to ten attempts to give a ballooning VM its memory back.\<close>

fun set_back :: "'w ext \<Rightarrow> nat \<Rightarrow> VirtualMachineInfo \<Rightarrow> 'w \<Rightarrow> 'w" where
  "set_back E 0 v w = w"
| "set_back E (Suc n) v w =
     (let (ret, w1) = SetVmBalloonTarget E v (back_target v) w
      in if ret = 0 then w1 else set_back E n v w1)"

definition back_one :: "'w ext \<Rightarrow> VirtualMachineInfo \<Rightarrow> 'w \<Rightarrow> (VirtualMachineInfo \<times> 'w) option" where
  "back_one E v w =
     (let w1 = (if ballooning v then set_back E SET_BALLOON_MAX v w else w)
      in Some (v, SetVmMemoryStatsPeriod E (Some v) False w1))"

definition BalloonBackVmMem :: "'w ext \<Rightarrow> 'w mstate \<Rightarrow> 'w mstate option" where
  "BalloonBackVmMem E s =
     do { s1 \<leftarrow> lock_vmlist s; s2 \<leftarrow> sweep (back_one E) s1; unlock_vmlist s2 }"

definition CoreExit :: "'w ext \<Rightarrow> 'w mstate \<Rightarrow> 'w mstate option" where
  "CoreExit E s =
     do { s1 \<leftarrow> (if g_balloonEnable (cfg s) = 1 then BalloonBackVmMem E s else Some s);
          FreeAllVM E s1 }"

end
