(* ===== verification/Balloon_Target.thy ===== *)
theory Balloon_Target
  imports Balloon
begin

text \<open>
  The arithmetic of the balloon logic: the percentage that decides, and the target that is asked
  for. The C expressions mix \<open>uint64_t\<close>, \<open>int64_t\<close> and \<open>float\<close>; the lemmas relate them to plain
  integers and fractions.
\<close>

section \<open>Sizes that occur\<close>

text \<open>
  The configured percentages are those that \<open>LoadCfgFile\<close> can leave; sizes are below half a
  zebibyte (\<open>2 ^ 49\<close> KiB), so that a product with a percentage fits in \<open>int64_t\<close>.
\<close>

definition percents_ok :: "globals \<Rightarrow> bool" where
  "percents_ok g \<longleftrightarrow> 120 \<le> g_balloonTargetUsedPercent g \<and> g_balloonTargetUsedPercent g \<le> 10000 \<and>
     0 \<le> g_balloonTargetMaxTotalPercent g \<and> g_balloonTargetMaxTotalPercent g \<le> 100"

definition guestFree :: "VirtualMachineInfo \<Rightarrow> u64" where
  "guestFree v = (if usable (memstat v) \<noteq> 0 then usable (memstat v) else unused (memstat v))"

definition sizes_ok :: "VirtualMachineInfo \<Rightarrow> bool" where
  "sizes_ok v \<longleftrightarrow> 0 \<le> memory v \<and> memory v < 562949953421312 \<and>
     uint (guestFree v) < 562949953421312 \<and>
     uint (minGuarantee (memparam v)) < 9223372036854775808"

lemma guestUsedMemory_eq: "guestUsedMemory v = available (memstat v) - guestFree v"
  by (simp add: guestUsedMemory_def guestFree_def)

section \<open>The target\<close>

text \<open>What the five assignments compute, over the integers.\<close>

definition ideal_target :: "globals \<Rightarrow> VirtualMachineInfo \<Rightarrow> int" where
  "ideal_target g v =
     min (memory v)
       (max (max (max ((memory v - uint (guestFree v)) * g_balloonTargetUsedPercent g div 100) 1048576)
                 (memory v * g_balloonTargetMaxTotalPercent g div 100))
            (uint (minGuarantee (memparam v))))"

lemma MAX_s64_max: "MAX_s64 a b = max a b"
  by (simp add: MAX_s64_def max_def)

lemma sdiv_nonneg: "0 \<le> x \<Longrightarrow> x sdiv 100 = x div (100::int)"
  by (cases "x = 0") (simp_all add: signed_divide_int_def sgn_if)

lemma max_sdiv: "max (x sdiv 100) 1048576 = max (x div 100) (1048576::int)"
proof (cases "0 \<le> x")
  case True
  then show ?thesis by (simp add: sdiv_nonneg)
next
  case False
  then have "x sdiv 100 \<le> 0" "x div 100 \<le> 0" by (simp_all add: signed_divide_int_def sgn_if)
  then show ?thesis by simp
qed

lemma sint_small_diff:
  fixes f :: u64
  assumes "0 \<le> m" and "m < 562949953421312" and "uint f < 562949953421312"
  shows "sint (word_of_int m - f) = m - uint f"
proof -
  have "word_of_int m - f = word_of_int (m - uint f)" by simp
  moreover have "in_s64 (m - uint f)"
    using assms uint_ge_0 [of f] unfolding in_s64_def by linarith
  ultimately show ?thesis using sint_of_int_s64 by metis
qed

lemma sint_small:
  assumes "uint (f :: u64) < 9223372036854775808"
  shows "sint f = uint f"
proof -
  have "0 \<le> uint f" by simp
  with assms have "in_s64 (uint f)" unfolding in_s64_def by linarith
  with sint_of_int_s64 [of "uint f"] show ?thesis by simp
qed

lemma MIN_u64_min:
  assumes "0 \<le> a" "a < 9223372036854775808" "0 \<le> b" "b < 9223372036854775808"
  shows "sint (MIN_u64 (word_of_int a) (word_of_int b)) = min a b"
proof -
  have u: "uint (word_of_int a :: u64) = a" "uint (word_of_int b :: u64) = b"
    using assms by (simp_all add: uint_word_of_int)
  have "sint (word_of_int a :: u64) = a" "sint (word_of_int b :: u64) = b"
    using assms by (simp_all add: sint_of_int_s64 in_s64_def)
  with u show ?thesis by (simp add: MIN_u64_def word_less_def min_def)
qed

lemma percent_bounds:
  fixes x :: int
  assumes "\<bar>x\<bar> < 562949953421312" and "0 \<le> p" and "p \<le> 10000"
  shows "in_s64 (x * p)" and "x * p div 100 < 9223372036854775808"
proof -
  have "\<bar>x * p\<bar> = \<bar>x\<bar> * p" using assms(2) by (simp add: abs_mult)
  also have "\<dots> \<le> 562949953421312 * 10000" using assms by (intro mult_mono) simp_all
  finally have b: "\<bar>x * p\<bar> \<le> 5629499534213120000" by simp
  then show "in_s64 (x * p)" unfolding in_s64_def by linarith
  show "x * p div 100 < 9223372036854775808" using b by linarith
qed

lemma balloon_target_eq:
  assumes "in_s64 (d * u)" "in_s64 (memory v * m)" "0 \<le> memory v * m"
    and "sint ((word_of_int (memory v) - available (memstat v)) + guestUsedMemory v) = d"
    and "g_balloonTargetUsedPercent g = u" "g_balloonTargetMaxTotalPercent g = m"
    and "sint (minGuarantee (memparam v)) = q"
  shows "balloon_target g v =
    Some (sint (MIN_u64 (word_of_int (max (max (max (d * u div 100) 1048576) (memory v * m div 100)) q))
                        (word_of_int (memory v))))"
  unfolding balloon_target_def Let_def assms(4-7) ck64_in [OF assms(1)] ck64_in [OF assms(2)]
    MAX_s64_max max_sdiv sdiv_nonneg [OF assms(3)] Option.bind.bind_lunit
  by (rule refl)

lemma balloon_target_ideal:
  assumes "percents_ok g" and "sizes_ok v"
  shows "balloon_target g v = Some (ideal_target g v)"
proof -
  define d where "d = memory v - uint (guestFree v)"
  define u where "u = g_balloonTargetUsedPercent g"
  define m where "m = g_balloonTargetMaxTotalPercent g"
  define q where "q = uint (minGuarantee (memparam v))"
  define t where "t = max (max (max (d * u div 100) 1048576) (memory v * m div 100)) q"
  have s: "0 \<le> memory v" "memory v < 562949953421312" "uint (guestFree v) < 562949953421312"
    "q < 9223372036854775808"
    using assms(2) by (simp_all add: sizes_ok_def q_def)
  have p: "0 \<le> u" "u \<le> 10000" "0 \<le> m" "m \<le> 10000"
    using assms(1) by (simp_all add: percents_ok_def u_def m_def)
  have d: "sint ((word_of_int (memory v) - available (memstat v)) + guestUsedMemory v) = d"
    using sint_small_diff [OF s(1-3)] by (simp add: guestUsedMemory_eq d_def)
  have "\<bar>d\<bar> < 562949953421312" "\<bar>memory v\<bar> < 562949953421312"
    using s(1-3) uint_ge_0 [of "guestFree v"] unfolding d_def by linarith+
  note b = percent_bounds [OF this(1) p(1,2)] percent_bounds [OF this(2) p(3,4)]
  have "0 \<le> memory v * m" using s(1) p(3) by simp
  from balloon_target_eq [OF b(1,3) this d u_def [symmetric] m_def [symmetric] sint_small, folded q_def, OF s(4)]
  have "balloon_target g v = Some (sint (MIN_u64 (word_of_int t) (word_of_int (memory v))))"
    by (simp only: t_def)
  also have "sint (MIN_u64 (word_of_int t) (word_of_int (memory v))) = min t (memory v)"
  proof (rule MIN_u64_min)
    show "0 \<le> t" unfolding t_def q_def by (rule max.coboundedI2) (rule uint_ge_0)
    show "t < 9223372036854775808" unfolding t_def max_less_iff_conj using b(2,4) s(4) by simp
  qed (use s in simp_all)
  finally show ?thesis
    unfolding ideal_target_def t_def d_def u_def m_def q_def by (simp only: min.commute)
qed

lemma clamp_bounds:
  fixes m a b c d :: int
  shows "min m (max (max (max a b) c) d) \<le> m" and "min m a \<le> min m (max (max (max a b) c) d)"
    and "min m b \<le> min m (max (max (max a b) c) d)" and "min m c \<le> min m (max (max (max a b) c) d)"
  by (rule min.cobounded1) (rule min.mono, simp_all add: le_max_iff_disj)+

lemma ideal_target_bounds:
  assumes "percents_ok g" and "sizes_ok v"
  shows "0 \<le> ideal_target g v" and "ideal_target g v \<le> memory v"
    and "min (memory v) 1048576 \<le> ideal_target g v"
    and "memory v * g_balloonTargetMaxTotalPercent g div 100 \<le> ideal_target g v"
    and "min (memory v) ((memory v - uint (guestFree v)) * g_balloonTargetUsedPercent g div 100) \<le> ideal_target g v"
proof -
  have "memory v * g_balloonTargetMaxTotalPercent g \<le> memory v * 100"
    using assms by (intro mult_left_mono) (simp_all add: percents_ok_def sizes_ok_def)
  then have "memory v * g_balloonTargetMaxTotalPercent g div 100 \<le> memory v" by linarith
  then have "memory v * g_balloonTargetMaxTotalPercent g div 100
      = min (memory v) (memory v * g_balloonTargetMaxTotalPercent g div 100)" by simp
  also have "\<dots> \<le> ideal_target g v" unfolding ideal_target_def by (rule clamp_bounds)
  finally show "memory v * g_balloonTargetMaxTotalPercent g div 100 \<le> ideal_target g v" .
  show lo: "min (memory v) 1048576 \<le> ideal_target g v"
    and "ideal_target g v \<le> memory v"
    and "min (memory v) ((memory v - uint (guestFree v)) * g_balloonTargetUsedPercent g div 100) \<le> ideal_target g v"
    unfolding ideal_target_def by (rule clamp_bounds)+
  have "0 \<le> min (memory v) 1048576" using assms(2) by (simp add: sizes_ok_def)
  with lo show "0 \<le> ideal_target g v" by (rule order_trans [rotated])
qed

text \<open>
  C4: The balloon target. For sizes and percentages that occur, no step of the computation
  overflows, the wrap-around of the mixed \<open>uint64_t\<close> expressions cancels, and the result is the
  integer formula: the used memory (\<open>memory\<close> less what the guest could still use) scaled by the
  configured percentage, at least 1 GiB, at least the configured share of the memory, at least
  the guarantee, and never more than the memory.
\<close>

theorem balloon_target_formula:
  assumes "percents_ok g" and "sizes_ok v"
  shows "balloon_target g v = Some (ideal_target g v) \<and>
    ideal_target g v \<le> memory v \<and> min (memory v) 1048576 \<le> ideal_target g v \<and>
    memory v * g_balloonTargetMaxTotalPercent g div 100 \<le> ideal_target g v \<and>
    min (memory v) ((memory v - uint (guestFree v)) * g_balloonTargetUsedPercent g div 100) \<le> ideal_target g v"
  using balloon_target_ideal [OF assms] ideal_target_bounds [OF assms] by blast

section \<open>The percentage\<close>

lemma CheckVmMemoryStat_ok:
  "\<not> CheckVmMemoryStat (Some v) < 0 \<Longrightarrow> 0 < unat (available (memstat v))"
  by (simp add: CheckVmMemoryStat_iff unat_gt_0)

text \<open>
  C29: Recording pressure. \<open>RecordPressure\<close> changes only the counter, and arms it (0 to 1) for a VM that
  is not ballooning. In spite of the rounding of the \<open>float\<close> computation it never does so for a guest
  that uses half of its memory or less, and always does for one that exceeds half by more than
  one part in a million (\<open>2 ^ -20\<close>).
\<close>

theorem RecordPressure_threshold:
  assumes "\<not> CheckVmMemoryStat (Some v) < 0" and "needBalloonFlag v = 0" and "\<not> ballooning v"
  shows "(RecordPressure v = v\<lparr>needBalloonFlag := 1\<rparr> \<or> RecordPressure v = v) \<and>
    (needBalloonFlag (RecordPressure v) = 1 \<longrightarrow>
       unat (available (memstat v)) < 2 * unat (guestUsedMemory v)) \<and>
    (unat (available (memstat v)) * 1048576 < 2 * unat (guestUsedMemory v) * 1048575 \<longrightarrow>
       needBalloonFlag (RecordPressure v) = 1)"
proof -
  have r: "RecordPressure v = (if guestUsagePercent v > 50 then v\<lparr>needBalloonFlag := 1\<rparr> else v)"
    using assms by (simp add: RecordPressure_def)
  show ?thesis
  proof (intro conjI impI)
    show "RecordPressure v = v\<lparr>needBalloonFlag := 1\<rparr> \<or> RecordPressure v = v" by (simp add: r)
    show "unat (available (memstat v)) < 2 * unat (guestUsedMemory v)"
      if "needBalloonFlag (RecordPressure v) = 1"
      using that assms(2) percent_above_half [OF CheckVmMemoryStat_ok [OF assms(1)]]
      unfolding r guestUsagePercent_def by (simp split: if_splits)
    show "needBalloonFlag (RecordPressure v) = 1"
      if "unat (available (memstat v)) * 1048576 < 2 * unat (guestUsedMemory v) * 1048575"
      using percent_detects [OF CheckVmMemoryStat_ok [OF assms(1)] that]
      unfolding r guestUsagePercent_def by simp
  qed
qed

section \<open>Instances\<close>

definition used_vm :: "u64 \<Rightarrow> VirtualMachineInfo" where
  "used_vm u = demo_vm\<lparr>needBalloonFlag := 0,
     memstat := zero_stats\<lparr>actualBalloon := 8388608, available := 8000000, usable := 8000000 - u\<rparr>\<rparr>"

lemmas used_vm_simps = used_vm_def demo_vm_def fresh_vm_def zero_vm_def zero_stats_def zero_params_def

theorem balloon_target_formula_witness:
  "balloon_target init_globals (used_vm 1000000) = Some 4194304"
proof -
  have "percents_ok init_globals" by (simp add: percents_ok_def init_globals_def)
  moreover have "sizes_ok (used_vm 1000000)" by (simp add: sizes_ok_def guestFree_def used_vm_simps)
  ultimately have "balloon_target init_globals (used_vm 1000000) = Some (ideal_target init_globals (used_vm 1000000))"
    using balloon_target_formula by blast
  then show ?thesis by (simp add: ideal_target_def guestFree_def used_vm_simps init_globals_def)
qed

theorem RecordPressure_threshold_witness:
  "needBalloonFlag (RecordPressure (used_vm 5000000)) = 1 \<and>
   needBalloonFlag (RecordPressure (used_vm 4000000)) = 0"
proof -
  have a: "\<not> CheckVmMemoryStat (Some (used_vm 5000000)) < 0" "needBalloonFlag (used_vm 5000000) = 0"
    "\<not> ballooning (used_vm 5000000)"
    by (simp_all add: CheckVmMemoryStat_iff used_vm_simps)
  have b: "\<not> CheckVmMemoryStat (Some (used_vm 4000000)) < 0" "needBalloonFlag (used_vm 4000000) = 0"
    "\<not> ballooning (used_vm 4000000)"
    by (simp_all add: CheckVmMemoryStat_iff used_vm_simps)
  have "unat (guestUsedMemory (used_vm 5000000)) = 5000000" "unat (guestUsedMemory (used_vm 4000000)) = 4000000"
    "unat (available (memstat (used_vm 5000000))) = 8000000" "unat (available (memstat (used_vm 4000000))) = 8000000"
    by (simp_all add: guestUsedMemory_def used_vm_simps)
  then show ?thesis using RecordPressure_threshold [OF a] RecordPressure_threshold [OF b] b(2) by auto
qed

end
