(* ===== verification/Balloon_Phase.thy ===== *)
theory Balloon_Phase
  imports Balloon_Target
begin

text \<open>
  The balloon logic as a state machine. The three flags of a record encode four phases; one turn of
  \<open>BalloonMainLoop\<close> on a VM makes at most one request to libvirt and one step of \<open>phase_step\<close>. The
  counter \<open>needBalloonFlag\<close> is the second machine: it decides when an idle VM is asked to shrink.
\<close>

section \<open>The counter\<close>

datatype load = High | Mid | Low

definition load_of :: "VirtualMachineInfo \<Rightarrow> load" where
  "load_of v =
     (if guestUsagePercent v > 50 then High else if guestUsagePercent v < 30 then Low else Mid)"

fun tick :: "load \<Rightarrow> int \<Rightarrow> int" where
  "tick High n = 1"
| "tick Mid n = n"
| "tick Low n = (if n > 0 then n + 1 else n)"

lemma guestUsagePercent_memstat: "memstat v = memstat v' \<Longrightarrow> guestUsagePercent v = guestUsagePercent v'"
  by (simp add: guestUsagePercent_def guestUsedMemory_def)

lemma load_of_memstat: "memstat v = memstat v' \<Longrightarrow> load_of v = load_of v'"
  using guestUsagePercent_memstat [of v v'] by (simp add: load_of_def)

lemma count_calm_tick:
  assumes "balloon_flags_ok v"
  shows "count_calm v = Some (v\<lparr>needBalloonFlag := tick (load_of v) (needBalloonFlag v)\<rparr>)"
  using assms by (auto simp: count_calm_def load_of_def balloon_flags_ok_def cint)

lemma tick_bounds: "0 \<le> n \<Longrightarrow> n < 20 \<Longrightarrow> 0 \<le> tick l n \<and> tick l n \<le> 20"
  by (cases l) auto

lemma balloon_target_flag [simp]: "balloon_target g (v\<lparr>needBalloonFlag := n\<rparr>) = balloon_target g v"
  by (simp add: balloon_target_def guestUsedMemory_def)

lemma balloon_target_range: "balloon_target g v = Some t \<Longrightarrow> \<exists>x. t = sint (x :: u64)"
  by (auto simp: balloon_target_def Let_def split: Option.bind_splits)

text \<open>\<open>DoBallooning\<close> with the counter abstracted.\<close>

lemma DoBallooning_tick:
  assumes "balloon_flags_ok v" and "\<not> CheckVmMemoryStat (Some v) < 0"
    and "n = tick (load_of v) (needBalloonFlag v)"
  shows "DoBallooning E g v w =
    (if n < 20 then Some (v\<lparr>needBalloonFlag := n\<rparr>, w)
     else do { t \<leftarrow> balloon_target g v;
               let v3 = v\<lparr>needBalloonFlag := 0, balloonTarget := t\<rparr>;
               if t > 0 then
                 let (r, w1) = virDomainSetMemoryFlags E (vdom v) (word_of_int t) w
                 in if r = 0 then Some (v3\<lparr>ballooning := True, ballooningDown := True\<rparr>, w1)
                    else Some (v3, w1)
               else Some (v3, w) })"
  using assms(2) unfolding DoBallooning_def count_calm_tick [OF assms(1)] assms(3) [symmetric]
  by (cases "balloon_target g v") (auto simp: SetVmBalloonTarget_def Let_def)

text \<open>The pressure that \<open>RecordPressure\<close> records just before is the one \<open>DoBallooning\<close> sees.\<close>

lemma RecordPressure_absorbed:
  assumes "balloon_flags_ok v" and "\<not> ballooning v"
  shows "DoBallooning E g (RecordPressure v) w = DoBallooning E g v w"
proof (cases "CheckVmMemoryStat (Some v) < 0 \<or> needBalloonFlag v \<noteq> 0 \<or> \<not> guestUsagePercent v > 50")
  case True
  then have "RecordPressure v = v" by (auto simp: RecordPressure_def)
  then show ?thesis by simp
next
  case False
  let ?v1 = "v\<lparr>needBalloonFlag := 1\<rparr>"
  have r: "RecordPressure v = ?v1" using False assms(2) by (simp add: RecordPressure_def)
  have load: "load_of v = High" "load_of ?v1 = High"
    using False load_of_memstat [of ?v1 v] by (simp_all add: load_of_def)
  have "balloon_flags_ok ?v1" "\<not> CheckVmMemoryStat (Some ?v1) < 0"
    using assms False by (simp_all add: balloon_flags_ok_def CheckVmMemoryStat_iff)
  from DoBallooning_tick [OF this refl] load have "DoBallooning E g ?v1 w = Some (?v1, w)" by simp
  moreover have "DoBallooning E g v w = Some (?v1, w)"
    using DoBallooning_tick [OF assms(1) _ refl] False load by simp
  ultimately show ?thesis by (simp add: r)
qed

section \<open>Phases\<close>

datatype phase = Idle | Inflating | Restoring | Retrying

definition phase_of :: "VirtualMachineInfo \<Rightarrow> phase" where
  "phase_of v =
     (if \<not> ballooning v then Idle
      else if incompleteBalloon v then Retrying
      else if ballooningDown v then Inflating
      else Restoring)"

text \<open>What is done in a turn: nothing, or a request for a size with libvirt's answer.\<close>

datatype act = Quiet | Asked u64 int

fun performs :: "'w ext \<Rightarrow> VirtualMachineInfo \<Rightarrow> act \<Rightarrow> 'w \<Rightarrow> 'w \<Rightarrow> bool" where
  "performs E v Quiet w w' \<longleftrightarrow> w' = w"
| "performs E v (Asked t r) w w' \<longleftrightarrow> virDomainSetMemoryFlags E (vdom v) t w = (r, w')"

text \<open>The size that may be asked for in a phase.\<close>

fun size_for :: "globals \<Rightarrow> VirtualMachineInfo \<Rightarrow> phase \<Rightarrow> u64 \<Rightarrow> bool" where
  "size_for g v Idle t \<longleftrightarrow> balloon_target g v = Some (sint t) \<and> 0 < sint t"
| "size_for g v Inflating t \<longleftrightarrow> t = back_target v - 2048"
| "size_for g v Retrying t \<longleftrightarrow> t = back_target v - 2048"
| "size_for g v Restoring t \<longleftrightarrow> t = back_target v"

inductive phase_step :: "phase \<Rightarrow> act \<Rightarrow> phase \<Rightarrow> bool" where
  stay: "phase_step p Quiet p"
| inflate: "phase_step Idle (Asked t 0) Inflating"
| refused: "r \<noteq> 0 \<Longrightarrow> phase_step Idle (Asked t r) Idle"
| give_back: "p = Inflating \<or> p = Retrying \<Longrightarrow> 0 \<le> r \<Longrightarrow> phase_step p (Asked t r) Restoring"
| back_failed: "p = Inflating \<or> p = Retrying \<Longrightarrow> r < 0 \<Longrightarrow> phase_step p (Asked t r) Retrying"
| top_up: "phase_step Restoring (Asked t r) Restoring"
| finished: "phase_step Restoring Quiet Idle"

inductive_cases phase_step_IdleE: "phase_step p a Idle"
inductive_cases phase_step_InflatingE: "phase_step p a Inflating"

definition step_ok :: "'w ext \<Rightarrow> globals \<Rightarrow> VirtualMachineInfo \<Rightarrow> 'w \<Rightarrow> VirtualMachineInfo \<Rightarrow> 'w \<Rightarrow> act \<Rightarrow> bool" where
  "step_ok E g v w v' w' a \<longleftrightarrow> performs E v a w w' \<and> phase_step (phase_of v) a (phase_of v') \<and>
     (case a of Quiet \<Rightarrow> True | Asked t r \<Rightarrow> size_for g v (phase_of v) t) \<and>
     vm_ok v' \<and> same_vm v v'"

lemma step_ok_quiet:
  "vm_ok v' \<Longrightarrow> same_vm v v' \<Longrightarrow> phase_of v' = phase_of v \<Longrightarrow> step_ok E g v w v' w Quiet"
  by (auto simp: step_ok_def intro: phase_step.intros)

text \<open>A full counter is cleared and the target stored; a positive target is requested.\<close>

lemma new_target_step:
  assumes "vm_ok v" and "\<not> ballooning v" and t: "balloon_target g v = Some t"
    and v3: "v3 = v\<lparr>needBalloonFlag := 0, balloonTarget := t\<rparr>"
    and run: "(if t > 0 then let (r, w1) = virDomainSetMemoryFlags E (vdom v) (word_of_int t) w in
        (if r = 0 then v3\<lparr>ballooning := True, ballooningDown := True\<rparr> else v3, w1) else (v3, w)) = (v', w')"
  shows "\<exists>a. step_ok E g v w v' w' a"
proof -
  from balloon_target_range [OF t] obtain x :: u64 where x: "t = sint x" ..
  then have tx: "word_of_int t = x" "in_s64 t" by simp_all
  have ok: "vm_ok v3" "same_vm v v3" "phase_of v3 = Idle" "phase_of v = Idle"
    using assms(1,2) tx(2)
    by (auto simp: v3 vm_ok_def vm_typed_def balloon_flags_ok_def same_vm_def phase_of_def in_s32_def)
  have down: "vm_ok (v3\<lparr>ballooning := True, ballooningDown := True\<rparr>)"
    "same_vm v (v3\<lparr>ballooning := True, ballooningDown := True\<rparr>)"
    "phase_of (v3\<lparr>ballooning := True, ballooningDown := True\<rparr>) = Inflating"
    using ok assms(1,2) by (auto simp: vm_ok_def vm_typed_def balloon_flags_ok_def same_vm_def phase_of_def v3)
  show ?thesis
  proof (cases "t > 0")
    case True
    obtain r w1 where r: "virDomainSetMemoryFlags E (vdom v) x w = (r, w1)" by fastforce
    have res: "w' = w1" "v' = (if r = 0 then v3\<lparr>ballooning := True, ballooningDown := True\<rparr> else v3)"
      using run True r tx(1) by (auto simp: Let_def split: if_splits)
    have "phase_step (phase_of v) (Asked x r) (phase_of v')"
      using ok(3,4) down(3) res(2) by (auto intro: phase_step.intros)
    with r res t x True ok down have "step_ok E g v w v' w' (Asked x r)" by (simp add: step_ok_def)
    then show ?thesis ..
  next
    case False
    with run ok show ?thesis by (auto intro!: exI [of _ Quiet] step_ok_quiet)
  qed
qed

lemma DoBallooning_step:
  assumes "vm_ok v" and "\<not> ballooning v" and "DoBallooning E g v w = Some (v', w')"
  shows "\<exists>a. step_ok E g v w v' w' a"
proof (cases "CheckVmMemoryStat (Some v) < 0")
  case True
  with assms show ?thesis by (auto simp: DoBallooning_def intro!: exI [of _ Quiet] step_ok_quiet)
next
  case False
  have fl: "balloon_flags_ok v" "0 \<le> needBalloonFlag v" "needBalloonFlag v < 20"
    using assms(1,2) by (auto simp: vm_ok_def balloon_flags_ok_def)
  define n where "n = tick (load_of v) (needBalloonFlag v)"
  note run = assms(3) [unfolded DoBallooning_tick [OF fl(1) False n_def]]
  show ?thesis
  proof (cases "n < 20")
    case True
    with run have "v' = v\<lparr>needBalloonFlag := n\<rparr>" "w' = w" by simp_all
    moreover have "0 \<le> n" using tick_bounds [OF fl(2,3)] by (simp add: n_def)
    then have "vm_ok (v\<lparr>needBalloonFlag := n\<rparr>)" using assms(1,2) fl True
      by (simp add: vm_ok_def vm_typed_def balloon_flags_ok_def in_s32_def)
    ultimately show ?thesis
      by (auto intro!: exI [of _ Quiet] step_ok_quiet simp: same_vm_def phase_of_def)
  next
    case F: False
    with run obtain t where t: "balloon_target g v = Some t" by (auto split: Option.bind_splits)
    show ?thesis by (rule new_target_step [OF assms(1,2) t refl])
      (use run F t in \<open>auto simp: Let_def split: if_splits prod.splits\<close>)
  qed
qed

section \<open>Watching a ballooning VM\<close>

lemma note_size_ok:
  assumes "vm_ok v"
  shows "vm_ok (note_size v)"
proof -
  let ?x = "sint (actualBalloon (memstat v))"
  let ?cs = "(currentActualBalloon v)[nat (balloonI v) := ?x]"
  have v: "length (currentActualBalloon v) = 2" "\<forall>c \<in> set (currentActualBalloon v). in_s64 c"
    "balloonI v = 0 \<or> balloonI v = 1"
    using assms by (auto simp: vm_ok_def vm_typed_def)
  have "\<forall>c \<in> set ?cs. in_s64 c"
    using v(2) set_update_subset_insert [of "currentActualBalloon v" "nat (balloonI v)" ?x] by auto
  moreover have "(balloonI v + 1) smod 2 = 0 \<or> (balloonI v + 1) smod 2 = 1"
    using v(3) by (auto simp: signed_modulo_int_def signed_divide_int_def)
  ultimately show ?thesis using assms
    by (simp add: note_size_def vm_ok_def vm_typed_def balloon_flags_ok_def)
qed

lemma note_size_simps [simp]:
  "ballooning (note_size v) = ballooning v" "incompleteBalloon (note_size v) = incompleteBalloon v"
  "ballooningDown (note_size v) = ballooningDown v" "memory (note_size v) = memory v"
  "same_vm v (note_size v)" "memstat (note_size v) = memstat v"
  "memparam (note_size v) = memparam v" "vdom (note_size v) = vdom v"
  by (simp_all add: note_size_def same_vm_def)

lemma phase_note_size [simp]: "phase_of (note_size v) = phase_of v"
  by (simp add: phase_of_def)

lemma vm_ok_flag: "vm_ok v \<Longrightarrow> 0 \<le> n \<Longrightarrow> n < 20 \<Longrightarrow> vm_ok (v\<lparr>needBalloonFlag := n\<rparr>)"
  by (simp add: vm_ok_def vm_typed_def balloon_flags_ok_def in_s32_def)

text \<open>The outcomes of \<open>BalloonCheck\<close>, by phase.\<close>

text \<open>The three branches of the check: a retry, the way down and the way back up.\<close>

lemma BalloonCheck_down:
  assumes "ballooningDown v" and "\<not> incompleteBalloon v" and "BalloonCheck v = Some (ret, v1)"
  obtains (reached) "ret = -1" "v1 = v" "actualBalloon (memstat v) - word_of_int (balloonTarget v) < 1024"
    | (slow) d where "ret = -1" "v1 = (note_size v)\<lparr>needBalloonFlag := 1\<rparr>"
        "size_moved (note_size v) = Some d" "d < 307200"
    | (moving) d where "ret = 0" "v1 = note_size v" "size_moved (note_size v) = Some d" "307200 \<le> d"
proof (cases "actualBalloon (memstat v) - word_of_int (balloonTarget v) < 1024")
  case True
  with assms show ?thesis by (intro reached) (auto simp: BalloonCheck_def)
next
  case False
  with assms obtain d where "size_moved (note_size v) = Some d"
    "(if d < 307200 then Some (-1, (note_size v)\<lparr>needBalloonFlag := 1\<rparr>) else Some (0, note_size v)) = Some (ret, v1)"
    by (auto simp: BalloonCheck_def Let_def split: if_split_asm Option.bind_splits)
  with slow moving show ?thesis by (cases "d < 307200") auto
qed

lemma BalloonCheck_up:
  assumes "\<not> ballooningDown v" and "\<not> incompleteBalloon v" and "BalloonCheck v = Some (ret, v1)"
  obtains (complete) "ret = 0" "v1 = v\<lparr>ballooning := False\<rparr>"
        "word_of_int (memory v) - actualBalloon (memstat v) < 1024"
    | (left) "ret = -2" "v1 = v"
    | (waiting) "ret = 0" "v1 = v"
proof (cases "word_of_int (memory v) - actualBalloon (memstat v) < 1024")
  case True
  with assms show ?thesis by (intro complete) (auto simp: BalloonCheck_def)
next
  case False
  with assms left waiting show ?thesis by (auto simp: BalloonCheck_def split: if_splits)
qed

lemma BalloonCheck_cases:
  assumes "ballooning v" and "BalloonCheck v = Some (ret, v1)"
  obtains (retry) "phase_of v = Retrying" "ret = -1" "v1 = v"
    | (reached) "phase_of v = Inflating" "ret = -1" "v1 = v"
        "actualBalloon (memstat v) - word_of_int (balloonTarget v) < 1024"
    | (slow) d where "phase_of v = Inflating" "ret = -1" "v1 = (note_size v)\<lparr>needBalloonFlag := 1\<rparr>"
        "size_moved (note_size v) = Some d" "d < 307200"
    | (moving) d where "phase_of v = Inflating" "ret = 0" "v1 = note_size v"
        "size_moved (note_size v) = Some d" "307200 \<le> d"
    | (complete) "phase_of v = Restoring" "ret = 0" "v1 = v\<lparr>ballooning := False\<rparr>"
        "word_of_int (memory v) - actualBalloon (memstat v) < 1024"
    | (left) "phase_of v = Restoring" "ret = -2" "v1 = v"
    | (waiting) "phase_of v = Restoring" "ret = 0" "v1 = v"
proof -
  consider (a) "incompleteBalloon v" | (b) "\<not> incompleteBalloon v" "ballooningDown v"
    | (c) "\<not> incompleteBalloon v" "\<not> ballooningDown v" by blast
  then show ?thesis
  proof cases
    case a
    with assms show ?thesis by (intro retry) (auto simp: BalloonCheck_def phase_of_def)
  next
    case b
    then have "phase_of v = Inflating" using assms(1) by (simp add: phase_of_def)
    with reached slow moving show ?thesis using BalloonCheck_down [OF b(2,1) assms(2)] by metis
  next
    case c
    then have "phase_of v = Restoring" using assms(1) by (simp add: phase_of_def)
    with complete left waiting show ?thesis using BalloonCheck_up [OF c(2,1) assms(2)] by metis
  qed
qed

text \<open>The first step back, after any outcome -1.\<close>

lemma give_back_step:
  assumes "vm_ok v1" "same_vm v v1" "ballooning v1" "memory v1 = memory v"
    and "phase_of v = Inflating \<or> phase_of v = Retrying"
    and "SetVmBalloonTarget E v1 (back_target v1 - 2048) w = (r, w')"
    and "v' = (if r < 0 then v1\<lparr>incompleteBalloon := True\<rparr>
               else v1\<lparr>ballooningDown := False, balloonI := 0, currentActualBalloon := [0, 0],
                      incompleteBalloon := False\<rparr>)"
  shows "step_ok E g v w v' w' (Asked (back_target v - 2048) r)"
proof -
  have dom: "vdom v1 = vdom v" "back_target v1 = back_target v"
    using assms(2,4) by (simp_all add: same_vm_def back_target_def)
  have v': "vm_ok v'" "same_vm v v'" "phase_of v' = (if r < 0 then Retrying else Restoring)"
    using assms(1-3,7)
    by (auto simp: vm_ok_def vm_typed_def balloon_flags_ok_def same_vm_def phase_of_def in_s64_def)
  have "size_for g v (phase_of v) (back_target v - 2048)" using assms(5) by auto
  moreover have "phase_step (phase_of v) (Asked (back_target v - 2048) r) (phase_of v')"
    using assms(5) v'(3) by (auto intro: phase_step.intros)
  ultimately show ?thesis using v'(1,2) assms(6) dom
    by (simp add: step_ok_def SetVmBalloonTarget_def)
qed

text \<open>A pass over a machine whose target has been set, after the verdict of the check.\<close>

lemma verdict_give_back:
  assumes "balloon_one E g v w = Some (v', w')" and "ballooning v" "\<not> lockall v" "\<not> enable_fpr v"
    "actualBalloon (memstat v) \<noteq> 0" and "BalloonCheck v = Some (-1, v1)"
    and "vm_ok v1" "same_vm v v1" "ballooning v1" "memory v1 = memory v"
    "phase_of v = Inflating \<or> phase_of v = Retrying"
  shows "\<exists>a. step_ok E g v w v' w' a"
proof -
  obtain r w1 where r: "SetVmBalloonTarget E v1 (back_target v1 - 2048) w = (r, w1)" by fastforce
  have "w1 = w'" "v' = (if r < 0 then v1\<lparr>incompleteBalloon := True\<rparr>
      else v1\<lparr>ballooningDown := False, balloonI := 0, currentActualBalloon := [0, 0],
        incompleteBalloon := False\<rparr>)"
    using assms(1-6) r by (auto simp: balloon_one_def split: if_splits)
  with give_back_step [OF assms(7-11) r] show ?thesis by blast
qed

lemma verdict_complete:
  assumes "vm_ok v" and "phase_of v = Restoring"
  shows "step_ok E g v w (v\<lparr>ballooning := False\<rparr>) w Quiet"
proof -
  have "vm_ok (v\<lparr>ballooning := False\<rparr>)" using assms
    by (auto simp: vm_ok_def vm_typed_def balloon_flags_ok_def phase_of_def split: if_splits)
  moreover have "phase_of (v\<lparr>ballooning := False\<rparr>) = Idle" "same_vm v (v\<lparr>ballooning := False\<rparr>)"
    by (simp_all add: phase_of_def same_vm_def)
  ultimately show ?thesis using assms(2) by (auto simp: step_ok_def intro: phase_step.intros)
qed

lemma balloon_busy_step:
  assumes "vm_ok v" and one: "balloon_one E g v w = Some (v', w')"
    and busy: "ballooning v" "\<not> lockall v" "\<not> enable_fpr v" "actualBalloon (memstat v) \<noteq> 0"
  shows "\<exists>a. step_ok E g v w v' w' a"
proof -
  from one busy obtain ret v1 where c: "BalloonCheck v = Some (ret, v1)"
    by (auto simp: balloon_one_def split: Option.bind_splits)
  note give_back = verdict_give_back [OF one busy]
  from busy(1) c show ?thesis
  proof (cases rule: BalloonCheck_cases)
    case (slow d)
    have "same_vm v v1" using slow(3) by (simp add: same_vm_def note_size_def)
    with slow c give_back [of v1] vm_ok_flag [OF note_size_ok [OF assms(1)], of 1] busy(1) show ?thesis by simp
  next
    case (moving d)
    with one busy c have "v' = note_size v" "w' = w" by (simp_all add: balloon_one_def)
    with moving(1) note_size_ok [OF assms(1)] show ?thesis
      by (auto intro!: exI [of _ Quiet] step_ok_quiet)
  next
    case complete
    with one busy c have "v' = v\<lparr>ballooning := False\<rparr>" "w' = w" by (simp_all add: balloon_one_def)
    with verdict_complete [OF assms(1) complete(1), of E g w] show ?thesis by auto
  next
    case left
    obtain r2 where r2: "virDomainSetMemoryFlags E (vdom v) (back_target v) w = (r2, w')"
      using one busy c left by (auto simp: balloon_one_def SetVmBalloonTarget_def) (metis prod.collapse)
    moreover have "v' = v" using one busy c left by (auto simp: balloon_one_def)
    ultimately have "step_ok E g v w v' w' (Asked (back_target v) r2)"
      using assms(1) left(1) by (auto simp: step_ok_def intro: phase_step.intros)
    then show ?thesis ..
  next
    case waiting
    with one busy c have "v' = v" "w' = w" by (simp_all add: balloon_one_def)
    with assms(1) show ?thesis by (auto intro!: exI [of _ Quiet] step_ok_quiet)
  qed (use c give_back [of v1] assms(1) busy(1) in simp_all)
qed

lemma balloon_one_step:
  assumes "vm_ok v" and "balloon_one E g v w = Some (v', w')"
  shows "\<exists>a. step_ok E g v w v' w' a"
proof -
  consider (pass) "lockall v \<or> enable_fpr v \<or> (\<not> ballooning v \<and> state v \<noteq> 1) \<or>
      (ballooning v \<and> actualBalloon (memstat v) = 0)"
    | (idle) "\<not> ballooning v" "\<not> lockall v" "\<not> enable_fpr v" "state v = 1"
    | (busy) "ballooning v" "\<not> lockall v" "\<not> enable_fpr v" "actualBalloon (memstat v) \<noteq> 0" by blast
  then show ?thesis
  proof cases
    case pass
    with assms(2) have "v' = v" "w' = w" by (auto simp: balloon_one_def split: if_splits)
    with assms(1) show ?thesis by (auto intro!: exI [of _ Quiet] step_ok_quiet)
  next
    case idle
    with assms(2) have "DoBallooning E g v w = Some (v', w')" by (simp add: balloon_one_def)
    then show ?thesis by (rule DoBallooning_step [OF assms(1) idle(1)])
  next
    case busy
    then show ?thesis by (rule balloon_busy_step [OF assms])
  qed
qed

lemma balloon_one_ok: "vm_ok v \<Longrightarrow> balloon_one E g v w = Some (v', w') \<Longrightarrow> vm_ok v' \<and> same_vm v v'"
  using balloon_one_step [of v E g w v' w'] by (auto simp: step_ok_def)

interpretation balloon_step: vm_step "balloon_one E g" for E g
  by unfold_locales (rule balloon_one_ok)

text \<open>
  C3: The balloon state machine. One turn of \<open>BalloonMainLoop\<close> on a VM makes at most one request to
  libvirt, takes one step of the four-phase machine, keeps the record well formed, and asks for
  the size that belongs to the phase: the computed target when idle, the memory less 2 MiB when
  an inflation ends or is retried, the full memory when the restoration is nearly complete.
\<close>

theorem balloon_one_refines:
  assumes "vm_ok v" and "balloon_one E g v w = Some (v', w')"
  shows "\<exists>a. performs E v a w w' \<and> phase_step (phase_of v) a (phase_of v') \<and>
    (case a of Quiet \<Rightarrow> True | Asked t r \<Rightarrow> size_for g v (phase_of v) t) \<and>
    vm_ok v' \<and> same_vm v v'"
  using balloon_one_step [OF assms] by (simp add: step_ok_def)

section \<open>No trap\<close>

text \<open>Sizes for which no signed operation of a turn overflows, the remembered ones included.\<close>

definition vm_sane :: "VirtualMachineInfo \<Rightarrow> bool" where
  "vm_sane v \<longleftrightarrow> sizes_ok v \<and> uint (actualBalloon (memstat v)) < 4611686018427387904 \<and>
     (\<forall>c \<in> set (currentActualBalloon v). 0 \<le> c \<and> c < 4611686018427387904)"

lemma size_moved_eq:
  assumes "currentActualBalloon v = [a, b]" "0 \<le> a" "0 \<le> b" "a < 4611686018427387904" "b < 4611686018427387904"
  shows "size_moved v = Some \<bar>a - b\<bar>"
proof -
  have "in_s64 (a - b)" "in_s64 \<bar>a - b\<bar>" using assms(2-5) unfolding in_s64_def by linarith+
  then show ?thesis by (simp add: size_moved_def assms(1))
qed

lemma note_size_slots:
  assumes "vm_ok v"
  shows "\<exists>a b. currentActualBalloon v = [a, b] \<and>
    (balloonI v = 0 \<and> currentActualBalloon (note_size v) = [sint (actualBalloon (memstat v)), b] \<and>
       balloonI (note_size v) = 1 \<or>
     balloonI v = 1 \<and> currentActualBalloon (note_size v) = [a, sint (actualBalloon (memstat v))] \<and>
       balloonI (note_size v) = 0)"
proof -
  have "length (currentActualBalloon v) = 2" "balloonI v = 0 \<or> balloonI v = 1"
    using assms by (auto simp: vm_ok_def vm_typed_def)
  moreover from this(1) obtain a b where "currentActualBalloon v = [a, b]"
    by (auto simp: numeral_2_eq_2 length_Suc_conv)
  ultimately show ?thesis
    by (auto simp: note_size_def signed_modulo_int_def signed_divide_int_def)
qed

lemma size_moved_runs:
  assumes "vm_ok v" and "vm_sane v"
  shows "\<exists>d. size_moved (note_size v) = Some d"
proof -
  let ?x = "sint (actualBalloon (memstat v))"
  have "?x = uint (actualBalloon (memstat v))" using assms(2) by (intro sint_small) (simp add: vm_sane_def)
  then have x: "0 \<le> ?x" "?x < 4611686018427387904" using assms(2) by (simp_all add: vm_sane_def)
  from note_size_slots [OF assms(1)] obtain a b where ab: "currentActualBalloon v = [a, b]"
    "currentActualBalloon (note_size v) = [?x, b] \<or> currentActualBalloon (note_size v) = [a, ?x]" by blast
  have "0 \<le> a" "a < 4611686018427387904" "0 \<le> b" "b < 4611686018427387904"
    using assms(2) ab(1) by (simp_all add: vm_sane_def)
  with x ab(2) size_moved_eq [of "note_size v"] show ?thesis by blast
qed

lemma balloon_one_runs:
  assumes "vm_ok v" and "percents_ok g" and "vm_sane v"
  shows "balloon_one E g v w \<noteq> None"
proof (cases "ballooning v")
  case True
  have i: "0 \<le> balloonI v" "balloonI v < 2" using assms(1) by (auto simp: vm_ok_def vm_typed_def)
  obtain d where "size_moved (note_size v) = Some d" using size_moved_runs [OF assms(1,3)] by blast
  with i have "\<exists>ret v1. BalloonCheck v = Some (ret, v1)" by (simp add: BalloonCheck_def Let_def)
  then obtain ret v1 where "BalloonCheck v = Some (ret, v1)" by blast
  with True show ?thesis by (simp add: balloon_one_def split: prod.splits)
next
  case False
  have "balloon_flags_ok v" using assms(1) by (simp add: vm_ok_def)
  moreover have "balloon_target g v = Some (ideal_target g v)"
    using balloon_target_ideal assms(2,3) by (simp add: vm_sane_def)
  ultimately have "DoBallooning E g v w \<noteq> None"
    by (cases "CheckVmMemoryStat (Some v) < 0")
      (simp add: DoBallooning_def, simp add: DoBallooning_tick Let_def split: prod.splits)
  with False show ?thesis by (simp add: balloon_one_def)
qed

interpretation balloon_total: vm_step_total "balloon_one E g" "\<lambda>v. percents_ok g \<and> vm_sane v" for E g
  by unfold_locales (rule balloon_one_runs; simp)

section \<open>An inflation ends\<close>

text \<open>Successive checks of one VM with the balloon sizes that libvirt reports, while nothing is decided.\<close>

definition with_actual :: "u64 \<Rightarrow> VirtualMachineInfo \<Rightarrow> VirtualMachineInfo" where
  "with_actual a v = v\<lparr>memstat := (memstat v)\<lparr>actualBalloon := a\<rparr>\<rparr>"

fun check_run :: "VirtualMachineInfo \<Rightarrow> u64 list \<Rightarrow> VirtualMachineInfo option" where
  "check_run v [] = Some v"
| "check_run v (a # as) =
     do { (ret, v1) \<leftarrow> BalloonCheck (with_actual a v);
          if ret = 0 then check_run v1 as else None }"

lemma with_actual_simps [simp]:
  "phase_of (with_actual a v) = phase_of v" "vm_ok (with_actual a v) = vm_ok v"
  "ballooning (with_actual a v) = ballooning v" "balloonI (with_actual a v) = balloonI v"
  "currentActualBalloon (with_actual a v) = currentActualBalloon v"
  "actualBalloon (memstat (with_actual a v)) = a"
  by (simp_all add: with_actual_def phase_of_def vm_ok_def vm_typed_def balloon_flags_ok_def)

text \<open>One undecided check of an inflating VM: the slots hold the last two sizes, 300 MiB apart.\<close>

lemma check_step:
  assumes "vm_ok v" and "phase_of v = Inflating" and "BalloonCheck (with_actual a v) = Some (0, v1)"
    and "uint a < 9223372036854775808"
  shows "vm_ok v1" and "phase_of v1 = Inflating"
    and "currentActualBalloon v1 ! nat (1 - balloonI v1) = uint a"
    and "307200 \<le> \<bar>currentActualBalloon v ! nat (1 - balloonI v) - uint a\<bar>"
proof -
  have b: "ballooning (with_actual a v)" using assms(2) by (auto simp: phase_of_def split: if_splits)
  have "v1 = note_size (with_actual a v) \<and> (\<exists>d. size_moved v1 = Some d \<and> 307200 \<le> d)"
    using b assms(3)
  proof (cases rule: BalloonCheck_cases)
    case (moving d)
    then show ?thesis by simp
  next
    case complete
    from complete(1) assms(2) show ?thesis by simp
  next
    case waiting
    from waiting(1) assms(2) show ?thesis by simp
  qed simp_all
  then obtain d where v1: "v1 = note_size (with_actual a v)" and d: "size_moved v1 = Some d" "307200 \<le> d" by blast
  have ok: "vm_ok (with_actual a v)" using assms(1) by simp
  then show "vm_ok v1" unfolding v1 by (rule note_size_ok)
  show "phase_of v1 = Inflating" using assms(2) by (simp add: v1)
  note slots = note_size_slots [OF ok, folded v1, simplified sint_small [OF assms(4)] with_actual_simps]
  then show "currentActualBalloon v1 ! nat (1 - balloonI v1) = uint a"
    using sint_small [OF assms(4)] by auto
  have "d = \<bar>currentActualBalloon v1 ! 0 - currentActualBalloon v1 ! 1\<bar>"
    using d(1) by (auto simp: size_moved_def split: Option.bind_splits)
  with slots d(2) sint_small [OF assms(4)]
  show "307200 \<le> \<bar>currentActualBalloon v ! nat (1 - balloonI v) - uint a\<bar>" by auto
qed

lemma check_run_gap:
  assumes "vm_ok v" and "phase_of v = Inflating" and "check_run v as = Some v'"
    and "currentActualBalloon v ! nat (1 - balloonI v) = p" and "p < 9223372036854775808"
    and "sorted_wrt (\<lambda>x y. y \<le> x) (p # map uint as)"
  shows "307200 * int (length as) \<le> p \<or> as = []"
  using assms
proof (induction as arbitrary: v p)
  case Nil
  then show ?case by simp
next
  case (Cons a as)
  from Cons.prems(3) obtain v1 where c: "BalloonCheck (with_actual a v) = Some (0, v1)" "check_run v1 as = Some v'"
    by (auto split: Option.bind_splits if_splits)
  have a: "uint a \<le> p" "uint a < 9223372036854775808" using Cons.prems(5,6) by auto
  note st = check_step [OF Cons.prems(1,2) c(1) a(2)]
  have "307200 * int (length as) \<le> uint a \<or> as = []"
    using Cons.prems(6) by (intro Cons.IH [OF st(1,2) c(2) st(3) a(2)]) auto
  moreover have "uint a + 307200 \<le> p" using st(4) a(1) Cons.prems(4) by simp
  ultimately have "307200 * int (length as) + 307200 \<le> p"
    using uint_ge_0 [of a] by (cases "as = []") (simp only: list.size of_nat_0, linarith+)
  then show ?case by simp
qed

text \<open>
  C14: An inflation does not last for ever. While an inflating VM's balloon only shrinks the guest,
  every check that leaves it inflating has seen it move by at least 300 MiB since the previous
  one; so from a size of \<open>a\<close> KiB there are at most \<open>a / 307200\<close> further undecided checks, and then the
  memory is given back.
\<close>

theorem inflation_bounded:
  assumes "vm_ok v" and "phase_of v = Inflating" and "check_run v (a # as) = Some v'"
    and "sorted_wrt (\<lambda>x y. y \<le> x) (map uint (a # as))" and "uint a < 9223372036854775808"
  shows "int (length as) \<le> uint a div 307200"
proof -
  from assms(3) obtain v1 where c: "BalloonCheck (with_actual a v) = Some (0, v1)" "check_run v1 as = Some v'"
    by (auto split: Option.bind_splits if_splits)
  note st = check_step [OF assms(1,2) c(1) assms(5)]
  have "307200 * int (length as) \<le> uint a \<or> as = []"
    using check_run_gap [OF st(1,2) c(2) st(3) assms(5)] assms(4) by simp
  then have "307200 * int (length as) \<le> uint a" using uint_ge_0 [of a] by fastforce
  then show ?thesis by linarith
qed

section \<open>An inflation needs calm\<close>

text \<open>
  Successive looks at one idle VM with the statistics that libvirt reports, until it is ballooning.
  (The pressure recorded in between makes no difference, \<open>RecordPressure_absorbed\<close>.)
\<close>

fun watch :: "'w ext \<Rightarrow> globals \<Rightarrow> VirtualMachineInfo \<Rightarrow> VmMemoryStats list \<Rightarrow> 'w \<Rightarrow> (VirtualMachineInfo \<times> 'w) option" where
  "watch E g v [] w = Some (v, w)"
| "watch E g v (m # ms) w =
     (if ballooning v then Some (v, w)
      else do { (v1, w1) \<leftarrow> DoBallooning E g (v\<lparr>memstat := m\<rparr>) w; watch E g v1 ms w1 })"

definition stats_valid :: "VmMemoryStats \<Rightarrow> bool" where
  "stats_valid m \<longleftrightarrow> \<not> CheckVmMemoryStat (Some (zero_vm\<lparr>memstat := m\<rparr>)) < 0"

definition loads :: "VmMemoryStats list \<Rightarrow> load list" where
  "loads ms = map (\<lambda>m. load_of (zero_vm\<lparr>memstat := m\<rparr>)) ms"

text \<open>Since the last high usage, or since the start, there were \<open>k\<close> low ones.\<close>

definition calm_tail :: "load list \<Rightarrow> nat \<Rightarrow> bool" where
  "calm_tail ls k \<longleftrightarrow> (\<exists>before after. ls = before @ after \<and> High \<notin> set after \<and>
     length (filter (\<lambda>l. l = Low) after) = k \<and> (before = [] \<or> last before = High))"

lemma calm_tail_High: "calm_tail (ls @ [High]) 0"
  unfolding calm_tail_def by (intro exI [of _ "ls @ [High]"] exI [of _ "[]"]) simp

lemma calm_tail_snoc:
  assumes "calm_tail ls k" and "l \<noteq> High"
  shows "calm_tail (ls @ [l]) (if l = Low then Suc k else k)"
proof -
  from assms(1) obtain b a where "ls = b @ a" "High \<notin> set a" "length (filter (\<lambda>l. l = Low) a) = k"
    "b = [] \<or> last b = High" by (auto simp: calm_tail_def)
  with assms(2) show ?thesis
    unfolding calm_tail_def by (intro exI [of _ b] exI [of _ "a @ [l]"]) auto
qed

definition flag_history :: "load list \<Rightarrow> VirtualMachineInfo \<Rightarrow> bool" where
  "flag_history ls v \<longleftrightarrow> needBalloonFlag v = 0 \<or> calm_tail ls (nat (needBalloonFlag v - 1))"

lemma tick_history:
  assumes "flag_history ls v" and "0 \<le> needBalloonFlag v" and "n = tick l (needBalloonFlag v)"
  shows "n = 0 \<or> calm_tail (ls @ [l]) (nat (n - 1))"
proof (cases l)
  case High
  with assms(3) show ?thesis by (simp add: calm_tail_High)
next
  case Mid
  with assms calm_tail_snoc [of ls _ Mid] show ?thesis by (auto simp: flag_history_def)
next
  case Low
  show ?thesis
  proof (cases "needBalloonFlag v = 0")
    case True
    with Low assms(3) show ?thesis by simp
  next
    case False
    with assms(1,2) have c: "calm_tail ls (nat (needBalloonFlag v - 1))" "0 < needBalloonFlag v"
      by (simp_all add: flag_history_def)
    then have "nat (n - 1) = Suc (nat (needBalloonFlag v - 1))" using Low assms(3) by simp
    with calm_tail_snoc [OF c(1), of Low] Low show ?thesis by simp
  qed
qed

lemma vm_ok_memstat [simp]: "vm_ok (v\<lparr>memstat := m\<rparr>) = vm_ok v"
  by (simp add: vm_ok_def vm_typed_def balloon_flags_ok_def)

text \<open>One look, as a step of the counter.\<close>

lemma look:
  assumes "vm_ok v" and "\<not> ballooning v" and "stats_valid m" and "flag_history ls v"
    and "DoBallooning E g (v\<lparr>memstat := m\<rparr>) w = Some (v1, w1)"
  shows "vm_ok v1" and "\<not> ballooning v1 \<Longrightarrow> flag_history (ls @ loads [m]) v1"
    and "ballooning v1 \<Longrightarrow> calm_tail (ls @ loads [m]) 19"
proof -
  let ?v = "v\<lparr>memstat := m\<rparr>"
  have fl: "balloon_flags_ok ?v" "0 \<le> needBalloonFlag ?v" "needBalloonFlag ?v < 20"
    using assms(1) by (simp_all add: vm_ok_def balloon_flags_ok_def)
  have valid: "\<not> CheckVmMemoryStat (Some ?v) < 0"
    using assms(3) by (simp add: stats_valid_def CheckVmMemoryStat_iff)
  define n where "n = tick (load_of ?v) (needBalloonFlag ?v)"
  have l: "loads [m] = [load_of ?v]" using load_of_memstat [of ?v "zero_vm\<lparr>memstat := m\<rparr>"] by (simp add: loads_def)
  have n: "n \<le> 20" "n = 0 \<or> calm_tail (ls @ loads [m]) (nat (n - 1))"
    using tick_bounds [OF fl(2,3)] tick_history [of ls v n "load_of ?v"] assms(4) fl(2)
    by (simp_all add: n_def l)
  note run = assms(5) [unfolded DoBallooning_tick [OF fl(1) valid n_def]]
  have "vm_ok ?v" "\<not> ballooning ?v" using assms(1,2) by simp_all
  from DoBallooning_step [OF this assms(5)] show "vm_ok v1" by (auto simp: step_ok_def)
  have small: "n < 20 \<Longrightarrow> v1 = ?v\<lparr>needBalloonFlag := n\<rparr>" using run by simp
  have big: "\<not> n < 20 \<Longrightarrow> needBalloonFlag v1 = 0"
    using run by (auto simp: Let_def split: Option.bind_splits if_splits prod.splits)
  show "\<not> ballooning v1 \<Longrightarrow> flag_history (ls @ loads [m]) v1"
    using small big n(2) by (cases "n < 20") (simp_all add: flag_history_def)
  show "calm_tail (ls @ loads [m]) 19" if "ballooning v1"
  proof -
    have "\<not> n < 20" using that small assms(2) by auto
    with n show ?thesis by auto
  qed
qed

lemma watch_history:
  assumes "vm_ok v" and "flag_history ls v" and "\<forall>m \<in> set ms. stats_valid m"
    and "watch E g v ms w = Some (v1, w1)" and "\<not> ballooning v1"
  shows "vm_ok v1 \<and> flag_history (ls @ loads ms) v1"
  using assms
proof (induction ms arbitrary: v w ls)
  case Nil
  then show ?case by (simp add: loads_def)
next
  case (Cons m ms)
  show ?case
  proof (cases "ballooning v")
    case True
    with Cons.prems(4,5) show ?thesis by simp
  next
    case F: False
    with Cons.prems(4) obtain v2 w2 where d: "DoBallooning E g (v\<lparr>memstat := m\<rparr>) w = Some (v2, w2)"
      "watch E g v2 ms w2 = Some (v1, w1)" by (auto split: Option.bind_splits)
    note lk = look [OF Cons.prems(1) F _ Cons.prems(2) d(1)]
    have "\<not> ballooning v2" using d(2) Cons.prems(5) by (cases ms) auto
    with lk Cons.prems(3) have "flag_history (ls @ loads [m]) v2" by simp
    from Cons.IH [OF _ this _ d(2) Cons.prems(5)] lk(1) Cons.prems(3) show ?thesis
      by (simp add: loads_def)
  qed
qed


section \<open>Instances\<close>

definition calm_stat :: VmMemoryStats where
  "calm_stat = zero_stats\<lparr>actualBalloon := 8388608, available := 8388608, usable := 6291456\<rparr>"

lemma calm_percent: "memstat v = calm_stat \<Longrightarrow> guestUsagePercent v = 25"
proof -
  assume v: "memstat v = calm_stat"
  have "rnd32 2097152 = 2097152" using rnd32_exact [of 2097152 8388608 "-2"] by (simp add: power_int_minus)
  moreover have "rnd32 8388608 = 8388608" using rnd32_exact [of 8388608 8388608 0] by simp
  moreover have q: "rnd32 (1 / 4) = 1 / 4" using rnd32_exact [of "1 / 4" 8388608 "-25"] by (simp add: power_int_minus)
  moreover have "rnd32 25 = 25" using rnd32_exact [of 25 13107200 "-19"] by (simp add: power_int_minus)
  then have "rnd32 (rnd32 (1 / 4) * 100) = 25" unfolding q by simp
  ultimately show ?thesis
    by (simp add: guestUsagePercent_def float_percent_def guestUsedMemory_def v calm_stat_def zero_stats_def)
qed

lemma calm_load: "memstat v = calm_stat \<Longrightarrow> load_of v = Low"
  by (simp add: load_of_def calm_percent)

lemma calm_valid: "stats_valid calm_stat"
  by (simp add: stats_valid_def CheckVmMemoryStat_iff calm_stat_def zero_stats_def)

definition calm_vm :: "int \<Rightarrow> VirtualMachineInfo" where
  "calm_vm n = demo_vm\<lparr>memstat := calm_stat, needBalloonFlag := n\<rparr>"

lemma calm_look:
  assumes "0 < n" "n < 19"
  shows "DoBallooning ref_ext init_globals ((calm_vm n)\<lparr>memstat := calm_stat\<rparr>) w = Some (calm_vm (n + 1), w)"
proof -
  let ?v = "(calm_vm n)\<lparr>memstat := calm_stat\<rparr>"
  have "balloon_flags_ok ?v" using assms
    by (simp add: calm_vm_def demo_vm_def fresh_vm_def zero_vm_def balloon_flags_ok_def)
  moreover have "\<not> CheckVmMemoryStat (Some ?v) < 0" using calm_valid by (simp add: stats_valid_def CheckVmMemoryStat_iff)
  moreover have "load_of ?v = Low" by (rule calm_load) simp
  moreover have "needBalloonFlag ?v = n" by (simp add: calm_vm_def)
  ultimately show ?thesis using assms DoBallooning_tick [of ?v "n + 1" ref_ext init_globals w]
    by (simp add: calm_vm_def)
qed

lemma calm_watch:
  "0 < n \<Longrightarrow> n + int k \<le> 19 \<Longrightarrow>
   watch ref_ext init_globals (calm_vm n) (replicate k calm_stat) w = Some (calm_vm (n + int k), w)"
proof (induction k arbitrary: n)
  case 0
  then show ?case by simp
next
  case (Suc k)
  have nb: "\<not> ballooning (calm_vm n)" by (simp add: calm_vm_def demo_vm_def fresh_vm_def zero_vm_def)
  from Suc.prems Suc.IH [of "n + 1"] calm_look [of n w] nb show ?case by (simp add: algebra_simps)
qed

lemma calm_inflates:
  "\<exists>v2 w2. DoBallooning ref_ext init_globals ((calm_vm 19)\<lparr>memstat := calm_stat\<rparr>) w = Some (v2, w2) \<and> ballooning v2"
proof -
  let ?v = "(calm_vm 19)\<lparr>memstat := calm_stat\<rparr>"
  have fl: "balloon_flags_ok ?v" by (simp add: calm_vm_def demo_vm_def fresh_vm_def zero_vm_def balloon_flags_ok_def)
  have va: "\<not> CheckVmMemoryStat (Some ?v) < 0" using calm_valid by (simp add: stats_valid_def CheckVmMemoryStat_iff)
  have "percents_ok init_globals" by (simp add: percents_ok_def init_globals_def)
  moreover have "sizes_ok ?v"
    by (simp add: sizes_ok_def guestFree_def calm_vm_def calm_stat_def demo_vm_def fresh_vm_def zero_vm_def
        zero_stats_def zero_params_def)
  ultimately have "balloon_target init_globals ?v = Some (ideal_target init_globals ?v)"
    by (rule balloon_target_ideal)
  moreover have "0 < ideal_target init_globals ?v"
    by (simp add: ideal_target_def calm_vm_def demo_vm_def fresh_vm_def zero_vm_def init_globals_def less_max_iff_disj)
  moreover have "load_of ?v = Low" by (rule calm_load) simp
  moreover have "needBalloonFlag ?v = 19" by (simp add: calm_vm_def)
  ultimately show ?thesis using DoBallooning_tick [OF fl va refl, of ref_ext init_globals w]
    by (simp add: Let_def ref_ext_def)
qed

lemma calm_vm_ok: "vm_ok (calm_vm 1)"
  using demo_vm_ok by (simp add: calm_vm_def vm_ok_flag)


definition shrinking_vm :: VirtualMachineInfo where
  "shrinking_vm = demo_vm\<lparr>ballooning := True, ballooningDown := True, balloonTarget := 4194304,
     memstat := zero_stats\<lparr>actualBalloon := 4194500\<rparr>\<rparr>"

lemma shrinking_vm: "vm_ok shrinking_vm" "phase_of shrinking_vm = Inflating"
  by (simp_all add: shrinking_vm_def demo_vm_def fresh_vm_def zero_vm_def vm_ok_def vm_typed_def
      balloon_flags_ok_def in_s32_def in_s64_def phase_of_def)

theorem balloon_one_refines_witness:
  "\<exists>v' w' a. balloon_one ref_ext init_globals shrinking_vm (0, []) = Some (v', w') \<and>
     performs ref_ext shrinking_vm a (0, []) w' \<and> phase_step Inflating a (phase_of v') \<and> vm_ok v'"
proof -
  obtain v' w' where b: "balloon_one ref_ext init_globals shrinking_vm (0, []) = Some (v', w')"
    by (simp add: balloon_one_def shrinking_vm_def demo_vm_def fresh_vm_def zero_vm_def BalloonCheck_def
        SetVmBalloonTarget_def ref_ext_def)
  from balloon_one_refines [OF shrinking_vm(1) b] b shrinking_vm(2) show ?thesis by auto
qed

theorem inflation_bounded_witness:
  "check_run shrinking_vm [8388608, 7388608] \<noteq> None \<and> int (length [7388608 :: u64]) \<le> uint (8388608 :: u64) div 307200"
proof -
  have "\<exists>v'. check_run shrinking_vm [8388608, 7388608] = Some v'"
    by (simp add: shrinking_vm_def with_actual_def demo_vm_def fresh_vm_def zero_vm_def BalloonCheck_def
        note_size_def size_moved_def signed_modulo_int_def signed_divide_int_def cint)
  then obtain v' where "check_run shrinking_vm [8388608, 7388608] = Some v'" ..
  with inflation_bounded [OF shrinking_vm this] show ?thesis by simp
qed

end
