(* ===== verification/Core.thy ===== *)
theory Core
  imports Balloon_Phase
begin

text \<open>
  src/memlink_core.c: the passes of the balloon thread over the whole list, the start of the two
  threads, and the way out. The requests that reach libvirt are observed through a function of
  the world: \<open>observes E seen\<close> says that \<open>seen\<close> records every call of \<open>virDomainSetMemoryFlags\<close> and
  that the other calls made here do not change it.
\<close>

section \<open>Starting\<close>

text \<open>
  The calling thread's part: what the event thread does until the semaphore is posted is part of
  the world here, and of the interleaving in theory Daemon. A \<open>MemSemaphore\<close> has 32 bytes.
\<close>

definition CreateEventThread ::
    "'w ext \<Rightarrow> sigmask \<Rightarrow> 'w mstate \<Rightarrow> ((int \<times> sigmask) \<times> 'w mstate) option" where
  "CreateEventThread E blocked s =
     (if memset_s E 32 32 \<noteq> 0 then Some ((-1, blocked), s)
      else
        let (rc, w1) = SemInit E 0 (world s)
        in if rc \<noteq> 0 then Some ((-1, blocked), s\<lparr>world := w1\<rparr>)
           else
             let ((tr, blocked1), w2) =
                   ThreadCreate E Run_DomainEventProcessThread MEMLINK_THREAD_DETACHED blocked w1
             in if tr < 0 then Some ((-1, blocked1), s\<lparr>world := snd (SemDestroy E w2)\<rparr>)
                else do {
                  (sr, w3) \<leftarrow> SemTimeWait E (g_initSemWaitTimeout (cfg s)) w2;
                  let w4 = snd (SemDestroy E w3);
                  if sr < 0 then Some ((-1, blocked1), s\<lparr>g_stopMemlinkd := 1, world := w4\<rparr>)
                  else Some ((0, blocked1), s\<lparr>world := w4\<rparr>) })"

definition CoreInit ::
    "'w ext \<Rightarrow> sigmask \<Rightarrow> 'w mstate \<Rightarrow> ((int \<times> sigmask) \<times> 'w mstate) option" where
  "CoreInit E blocked s =
     do { ((r, blocked1), s1) \<leftarrow> CreateEventThread E blocked s;
          if r < 0 then Some ((-1, blocked1), s1)
          else if g_balloonEnable (cfg s1) = 1 then
            let ((tr, blocked2), w) =
                  ThreadCreate E Run_BalloonVmMemThread MEMLINK_THREAD_DETACHED blocked1 (world s1)
            in Some ((if tr < 0 then -1 else 0, blocked2), s1\<lparr>world := w\<rparr>)
          else Some ((0, blocked1), s1) }"

section \<open>Observing the requests\<close>

type_synonym request = "nat option \<times> u64"

definition observes :: "'w ext \<Rightarrow> ('w \<Rightarrow> request list) \<Rightarrow> bool" where
  "observes E seen \<longleftrightarrow>
     (\<forall>d t w. seen (snd (virDomainSetMemoryFlags E d t w)) = seen w @ [(d, t)]) \<and>
     (\<forall>d p w. seen (snd (virDomainSetMemoryStatsPeriod E d p w)) = seen w) \<and>
     (\<forall>d w. seen (virDomainFree E d w) = seen w)"

lemma observesD:
  assumes "observes E seen"
  shows "virDomainSetMemoryFlags E d t w = (r, w') \<Longrightarrow> seen w' = seen w @ [(d, t)]"
    and "seen (snd (virDomainSetMemoryStatsPeriod E d p w)) = seen w"
    and "seen (virDomainFree E c w) = seen w"
proof -
  show "seen w' = seen w @ [(d, t)]" if "virDomainSetMemoryFlags E d t w = (r, w')"
    using assms that unfolding observes_def by (metis snd_conv)
qed (use assms in \<open>simp_all add: observes_def\<close>)

text \<open>What a loop over the records adds to the seen: one segment per VM, in list order.\<close>

context vm_step
begin

lemma foreach_log:
  assumes "vmlist_inv s" and "distinct as" and "foreach (\<lambda>a. on_vm a f) as s = Some s'"
    and "\<And>v w v' w'. vm_ok v \<Longrightarrow> f v w = Some (v', w') \<Longrightarrow> \<exists>r. seen w' = seen w @ r \<and> P v r"
  shows "\<exists>rs. seen (world s') = seen (world s) @ concat rs \<and> list_all2 (\<lambda>a r. P (the (vmheap s a)) r) as rs"
  using assms(1-3)
proof (induction as arbitrary: s)
  case Nil
  then show ?case by (intro exI [of _ "[]"]) simp
next
  case (Cons a as)
  then obtain s1 where s1: "on_vm a f s = Some s1" "foreach (\<lambda>a. on_vm a f) as s1 = Some s'"
    by (auto split: Option.bind_splits)
  from on_vm_ok [OF Cons.prems(1) s1(1)] obtain v v' where one: "vmlist_inv s1" "vmheap s a = Some v"
    "vmheap s1 = (vmheap s)(a \<mapsto> v')" "f v (world s) = Some (v', world s1)" by blast
  from assms(4) [OF vmlist_invD(4) [OF Cons.prems(1) one(2)] one(4)] obtain r where
    r: "seen (world s1) = seen (world s) @ r" "P v r" by blast
  from Cons.IH [OF one(1) _ s1(2)] Cons.prems(2) obtain rs where
    rs: "seen (world s') = seen (world s1) @ concat rs" "list_all2 (\<lambda>a r. P (the (vmheap s1 a)) r) as rs" by auto
  have "list_all2 (\<lambda>a r. P (the (vmheap s a)) r) as rs"
    by (rule list.rel_mono_strong [OF rs(2)]) (use Cons.prems(2) one(3) in \<open>auto split: if_splits\<close>)
  with r rs(1) one(2) show ?case by (intro exI [of _ "r # rs"]) simp
qed

lemma sweep_log:
  assumes "vmlist_inv s" and "sweep f s = Some s'"
    and "\<And>v w v' w'. vm_ok v \<Longrightarrow> f v w = Some (v', w') \<Longrightarrow> \<exists>r. seen w' = seen w @ r \<and> P v r"
  shows "\<exists>rs. seen (world s') = seen (world s) @ concat rs \<and> list_all2 P (vms s) rs"
proof -
  have "\<exists>rs. seen (world s') = seen (world s) @ concat rs \<and>
      list_all2 (\<lambda>a r. P (the (vmheap s a)) r) (domainsListHead s) rs"
    by (rule foreach_log [OF assms(1) vmlist_invD(1) [OF assms(1)] assms(2) [unfolded sweep_def] assms(3)])
  then show ?thesis by (simp add: vms_def list_all2_map1)
qed

end

section \<open>The sections of a pass\<close>

lemma mark_incomplete_ok: "vm_ok v \<Longrightarrow> vm_ok (mark_incomplete v) \<and> same_vm v (mark_incomplete v)"
  by (simp add: mark_incomplete_def vm_ok_def vm_typed_def balloon_flags_ok_def same_vm_def)

lemma record_running_ok: "vm_ok v \<Longrightarrow> vm_ok (record_running v) \<and> same_vm v (record_running v)"
  by (auto simp: record_running_def RecordPressure_def same_vm_def intro: vm_ok_flag)

interpretation mark_step: vm_step_total "\<lambda>v w. Some (mark_incomplete v, w)" "\<lambda>_. True"
  by unfold_locales (auto dest: mark_incomplete_ok)

interpretation record_step: vm_step_total "\<lambda>v w. Some (record_running v, w)" "\<lambda>_. True"
  by unfold_locales (auto dest: record_running_ok)

lemma mark_simps [simp]:
  "memory (mark_incomplete v) = memory v" "memstat (mark_incomplete v) = memstat v"
  "memparam (mark_incomplete v) = memparam v" "vdom (mark_incomplete v) = vdom v"
  "currentActualBalloon (mark_incomplete v) = currentActualBalloon v"
  by (simp_all add: mark_incomplete_def)

lemma record_simps [simp]:
  "memory (record_running v) = memory v" "memstat (record_running v) = memstat v"
  "memparam (record_running v) = memparam v" "vdom (record_running v) = vdom v"
  "currentActualBalloon (record_running v) = currentActualBalloon v"
  by (simp_all add: record_running_def RecordPressure_def)

text \<open>The first two loops of a section and the search, as one map over the records.\<close>

definition prepared :: "VirtualMachineInfo \<Rightarrow> VirtualMachineInfo" where
  "prepared v = record_running (mark_incomplete v)"

lemma prepared_simps [simp]:
  "memory (prepared v) = memory v" "memstat (prepared v) = memstat v" "vdom (prepared v) = vdom v"
  "currentActualBalloon (prepared v) = currentActualBalloon v" "memparam (prepared v) = memparam v"
  by (simp_all add: prepared_def)

lemma prepared_sizes [simp]:
  "sizes_ok (prepared v) = sizes_ok v" "vm_sane (prepared v) = vm_sane v"
  by (simp_all add: vm_sane_def sizes_ok_def guestFree_def)

lemma balloon_section_split:
  assumes "vmlist_inv s" and "\<not> lock s"
  obtains t where "vmlist_inv t" "list_frame (s\<lparr>lock := True\<rparr>) t" "domainsListHead t = domainsListHead s"
    "vms t = map prepared (vms s)" "world t = world s"
    "balloon_section E s = do { u \<leftarrow> sweep (balloon_one E (cfg s)) t; unlock_vmlist u }"
proof -
  let ?s1 = "s\<lparr>lock := True\<rparr>"
  have inv: "vmlist_inv ?s1" using assms(1) by simp
  obtain s2 where s2: "sweep (\<lambda>v w. Some (mark_incomplete v, w)) ?s1 = Some s2"
    using mark_step.sweep_runs [OF inv] by auto
  note m = mark_step.sweep_ok(1-3) [OF inv s2] pure_sweep [OF mark_step.vm_step_axioms inv s2]
  obtain s3 where s3: "sweep (\<lambda>v w. Some (record_running v, w)) s2 = Some s3"
    using record_step.sweep_runs [OF m(1)] by auto
  note r = record_step.sweep_ok(1-3) [OF m(1) s3] pure_sweep [OF record_step.vm_step_axioms m(1) s3]
  have "\<exists>x. find_vm (\<lambda>v. Some (ballooning v)) (domainsListHead s2) (vmheap s2) = Some x"
    by (rule find_vm_total) (use vmlist_inv_heap [OF m(1)] in simp, blast)
  then obtain x where x: "find_vm (\<lambda>v. Some (ballooning v)) (domainsListHead s2) (vmheap s2) = Some x" ..
  have fr: "list_frame ?s1 s3" using m(2) r(2) by (rule list_frame_trans)
  then have "cfg s3 = cfg s" by (simp add: list_frame_def)
  then have "balloon_section E s = do { u \<leftarrow> sweep (balloon_one E (cfg s)) s3; unlock_vmlist u }"
    using assms(2) s2 s3 x by (simp add: balloon_section_def BalloonMainLoop_def mutex)
  moreover have "vms s3 = map prepared (vms s)"
    using m(4) r(4) by (simp add: vms_def prepared_def)
  ultimately show ?thesis using that r(1,3,5) m(3,5) fr by simp
qed

lemma uint_sint_nonneg:
  assumes "0 \<le> sint (t :: u64)"
  shows "uint t = sint t"
proof -
  have "unat (word_of_int (sint t) :: u64) = nat (sint t)"
    by (rule unat_of_int_nonneg [OF assms sint_in_s64])
  moreover have "word_of_int (sint t) = t" by simp
  ultimately have "unat t = nat (sint t)" by (simp only:)
  then show ?thesis using assms by (simp only: uint_nat int_nat_eq if_True)
qed

lemma back_sizes:
  assumes "2048 \<le> m" and "m < 562949953421312"
  shows "uint (word_of_int m :: u64) = m" and "uint (word_of_int m - 2048 :: u64) = m - 2048"
proof -
  have u: "uint (word_of_int k :: u64) = k" if "0 \<le> k" "k < 562949953421312" for k
    using that by (simp add: uint_word_of_int)
  then show "uint (word_of_int m :: u64) = m" using assms by simp
  have "word_of_int m - 2048 = (word_of_int (m - 2048) :: u64)" by simp
  with u [of "m - 2048"] assms show "uint (word_of_int m - 2048 :: u64) = m - 2048"
    by (simp only:)
qed

lemma size_for_bounds:
  assumes "percents_ok g" and "sizes_ok v" and "2048 \<le> memory v" and "size_for g v p t"
  shows "uint t \<le> memory v \<and> min (memory v) 1048576 - 2048 \<le> uint t"
proof (cases p)
  case Idle
  with assms(4) balloon_target_ideal [OF assms(1,2)] have t: "sint t = ideal_target g v" by simp
  note b = ideal_target_bounds(1-3) [OF assms(1,2)]
  have "uint t = sint t" using b(1) t by (intro uint_sint_nonneg) simp
  with t b show ?thesis by linarith
qed (use assms back_sizes [of "memory v"] in \<open>auto simp: back_target_def sizes_ok_def\<close>)

lemma balloon_one_seen:
  assumes "observes E seen" and "vm_ok v" and "balloon_one E g v w = Some (v', w')"
  shows "\<exists>r. seen w' = seen w @ r \<and> (r = [] \<or> (\<exists>t. r = [(vdom v, t)] \<and> size_for g v (phase_of v) t))"
proof -
  obtain a where a: "performs E v a w w'"
    "case a of Quiet \<Rightarrow> True | Asked t r \<Rightarrow> size_for g v (phase_of v) t"
    using balloon_one_step [OF assms(2,3)] by (auto simp: step_ok_def)
  show ?thesis
  proof (cases a)
    case Quiet
    with a show ?thesis by simp
  next
    case (Asked t r)
    with a have "seen w' = seen w @ [(vdom v, t)]" using observesD(1) [OF assms(1)] by simp
    with a Asked show ?thesis by auto
  qed
qed

lemma balloon_section_requests:
  assumes "vmlist_inv s" and "\<not> lock s" and "percents_ok (cfg s)" and "observes E seen"
    and "\<forall>v \<in> set (vms s). vm_sane v \<and> 2048 \<le> memory v"
  shows "\<exists>s' rs. balloon_section E s = Some s' \<and> vmlist_inv s' \<and> list_frame s s' \<and>
    domainsListHead s' = domainsListHead s \<and> seen (world s') = seen (world s) @ concat rs \<and>
    list_all2 (\<lambda>v r. r = [] \<or> (\<exists>t. r = [(vdom v, t)] \<and> uint t \<le> memory v \<and>
                 min (memory v) 1048576 - 2048 \<le> uint t)) (vms s) rs"
proof -
  obtain t where t: "vmlist_inv t" "list_frame (s\<lparr>lock := True\<rparr>) t" "domainsListHead t = domainsListHead s"
    "vms t = map prepared (vms s)" "world t = world s"
    "balloon_section E s = do { u \<leftarrow> sweep (balloon_one E (cfg s)) t; unlock_vmlist u }"
    by (rule balloon_section_split [OF assms(1,2)])
  have "\<forall>v \<in> set (vms t). percents_ok (cfg s) \<and> vm_sane v" using assms(3,5) t(4) by auto
  from balloon_total.sweep_runs [OF t(1) this] obtain u where u: "sweep (balloon_one E (cfg s)) t = Some u" by blast
  note ok = balloon_step.sweep_ok(1-3) [OF t(1) u]
  have "\<exists>rs. seen (world u) = seen (world t) @ concat rs \<and>
      list_all2 (\<lambda>v r. r = [] \<or> (\<exists>x. r = [(vdom v, x)] \<and> size_for (cfg s) v (phase_of v) x)) (vms t) rs"
    by (rule balloon_step.sweep_log [OF t(1) u]) (rule balloon_one_seen [OF assms(4)])
  then obtain rs where rs: "seen (world u) = seen (world s) @ concat rs"
    "list_all2 (\<lambda>v r. r = [] \<or> (\<exists>x. r = [(vdom v, x)] \<and> size_for (cfg s) v (phase_of v) x)) (vms t) rs"
    by (auto simp: t(5))
  have bound: "uint x \<le> memory v \<and> min (memory v) 1048576 - 2048 \<le> uint x"
    if "v \<in> set (vms s)" "size_for (cfg s) (prepared v) (phase_of (prepared v)) x" for v x
    using size_for_bounds [OF assms(3) _ _ that(2)] assms(5) that(1) by (simp add: vm_sane_def)
  from rs(2) have "list_all2 (\<lambda>v r. r = [] \<or> (\<exists>x. r = [(vdom v, x)] \<and>
      size_for (cfg s) (prepared v) (phase_of (prepared v)) x)) (vms s) rs"
    by (simp add: t(4) list_all2_map1)
  then have "list_all2 (\<lambda>v r. r = [] \<or> (\<exists>t. r = [(vdom v, t)] \<and> uint t \<le> memory v \<and>
      min (memory v) 1048576 - 2048 \<le> uint t)) (vms s) rs"
    by (rule list.rel_mono_strong) (use bound in blast)
  moreover have "balloon_section E s = Some (u\<lparr>lock := False\<rparr>)" "list_frame s (u\<lparr>lock := False\<rparr>)"
    using t(2,6) u ok(2) assms(2) by (simp_all add: mutex list_frame_def)
  ultimately show ?thesis using ok(1,3) t(3) rs(1) by (intro exI [of _ "u\<lparr>lock := False\<rparr>"] exI [of _ rs]) simp
qed

text \<open>
  C10: A pass over the list is safe. With sane sizes and configured percentages the locked section of
  a pass returns, keeps the list well formed and gives the lock back; and it asks libvirt for at
  most one size per VM, in list order, a size that is never above the VM's memory nor below
  1 GiB less the 2 MiB of the first step back (or the memory less 2 MiB, for a smaller VM).
\<close>

theorem balloon_section_safe:
  assumes "vmlist_inv s" and "\<not> lock s" and "percents_ok (cfg s)" and "observes E seen"
    and "\<forall>v \<in> set (vms s). vm_sane v \<and> 2048 \<le> memory v"
  shows "\<exists>s' rs. balloon_section E s = Some s' \<and> vmlist_inv s' \<and> list_frame s s' \<and>
    domainsListHead s' = domainsListHead s \<and> seen (world s') = seen (world s) @ concat rs \<and>
    list_all2 (\<lambda>v r. r = [] \<or> (\<exists>t. r = [(vdom v, t)] \<and> uint t \<le> memory v \<and>
                 min (memory v) 1048576 - 2048 \<le> uint t)) (vms s) rs"
  using assms by (rule balloon_section_requests)

section \<open>Without statistics\<close>

lemma sweep_id:
  assumes "vmlist_inv s" and "\<And>v w. v \<in> set (vms s) \<Longrightarrow> f v w = Some (v, w)"
  shows "sweep f s = Some s"
proof -
  have "foreach (\<lambda>a. on_vm a f) as s = Some s" if "set as \<subseteq> set (domainsListHead s)" for as
    using that
  proof (induction as)
    case Nil
    then show ?case by simp
  next
    case (Cons a as)
    then obtain v where v: "vmheap s a = Some v" using vmlist_inv_heap [OF assms(1), of a] by auto
    with Cons.prems have "v \<in> set (vms s)" by (auto simp: vms_def intro: image_eqI [of _ _ a])
    with v assms(2) have "on_vm a f s = Some s" by (simp add: on_vm_def fun_upd_idem)
    with Cons show ?case by simp
  qed
  then show ?thesis by (simp add: sweep_def)
qed

lemma balloon_section_idle:
  assumes "vmlist_inv s" and "\<not> lock s" and "\<forall>v \<in> set (vms s). actualBalloon (memstat v) = 0"
  shows "balloon_section E s = Some s"
proof -
  let ?s1 = "s\<lparr>lock := True\<rparr>"
  have inv: "vmlist_inv ?s1" using assms(1) by simp
  have c: "CheckVmMemoryStat (Some v) < 0" if "v \<in> set (vms ?s1)" for v
    using that assms(3) by (auto simp: CheckVmMemoryStat_iff vms_def)
  have a: "actualBalloon (memstat v) = 0" if "v \<in> set (vms ?s1)" for v
    using that assms(3) by (auto simp: vms_def)
  have "sweep (\<lambda>v w. Some (mark_incomplete v, w)) ?s1 = Some ?s1"
    by (rule sweep_id [OF inv]) (simp add: mark_incomplete_def c)
  moreover have "sweep (\<lambda>v w. Some (record_running v, w)) ?s1 = Some ?s1"
    by (rule sweep_id [OF inv]) (simp add: record_running_def RecordPressure_def c)
  moreover have "sweep (balloon_one E (cfg s)) ?s1 = Some ?s1"
    by (rule sweep_id [OF inv]) (simp add: balloon_one_def DoBallooning_def c a)
  moreover have "\<exists>x. find_vm (\<lambda>v. Some (ballooning v)) (domainsListHead ?s1) (vmheap ?s1) = Some x"
    by (rule find_vm_total) (use vmlist_inv_heap [OF inv] in simp, blast)
  ultimately show ?thesis using assms(2)
    by (auto simp: balloon_section_def BalloonMainLoop_def mutex)
qed

lemma fold_clear_actual: "actualBalloon (memstat (clear_stats v)) = 0"
  by (simp add: clear_stats_def)


section \<open>Leaving\<close>

interpretation back_step: vm_step_total "back_one E" "\<lambda>_. True" for E
  by unfold_locales (auto simp: back_one_def)

text \<open>The requests for one VM on the way out: the full memory, until one is accepted, ten at most.\<close>

definition restored :: "'w ext \<Rightarrow> VirtualMachineInfo \<Rightarrow> request list \<Rightarrow> bool" where
  "restored E v r \<longleftrightarrow>
     (if ballooning v then
        \<exists>k. 1 \<le> k \<and> k \<le> 10 \<and> r = replicate k (vdom v, back_target v) \<and>
          (k < 10 \<longrightarrow> (\<exists>w. fst (virDomainSetMemoryFlags E (vdom v) (back_target v) w) = 0))
      else r = [])"

lemma set_back_seen:
  assumes "observes E seen"
  shows "\<exists>k. k \<le> n \<and> (0 < n \<longrightarrow> 1 \<le> k) \<and>
    seen (set_back E n v w) = seen w @ replicate k (vdom v, back_target v) \<and>
    (k < n \<longrightarrow> (\<exists>w. fst (virDomainSetMemoryFlags E (vdom v) (back_target v) w) = 0))"
proof (induction n arbitrary: w)
  case 0
  show ?case by simp
next
  case (Suc n)
  obtain r w1 where r: "virDomainSetMemoryFlags E (vdom v) (back_target v) w = (r, w1)" by fastforce
  have one: "seen w1 = seen w @ [(vdom v, back_target v)]" by (rule observesD(1) [OF assms r])
  show ?case
  proof (cases "r = 0")
    case True
    then have "set_back E (Suc n) v w = w1" using r by (simp add: SetVmBalloonTarget_def)
    moreover have "fst (virDomainSetMemoryFlags E (vdom v) (back_target v) w) = 0" using r True by simp
    ultimately show ?thesis using one by (intro exI [of _ 1]) auto
  next
    case False
    then have "set_back E (Suc n) v w = set_back E n v w1" using r by (simp add: SetVmBalloonTarget_def)
    moreover from Suc.IH obtain k where "k \<le> n"
      "seen (set_back E n v w1) = seen w1 @ replicate k (vdom v, back_target v)"
      "k < n \<longrightarrow> (\<exists>w. fst (virDomainSetMemoryFlags E (vdom v) (back_target v) w) = 0)" by blast
    ultimately show ?thesis using one by (intro exI [of _ "Suc k"]) simp
  qed
qed

lemma back_one_seen:
  assumes "observes E seen" and "back_one E v w = Some (v', w')"
  shows "\<exists>r. seen w' = seen w @ r \<and> restored E v r"
proof (cases "ballooning v")
  case True
  with assms(2) have w': "w' = SetVmMemoryStatsPeriod E (Some v) False (set_back E 10 v w)"
    by (auto simp: back_one_def)
  from set_back_seen [OF assms(1), of 10 v w] obtain k where k: "1 \<le> k" "k \<le> 10"
    "seen (set_back E 10 v w) = seen w @ replicate k (vdom v, back_target v)"
    "k < 10 \<longrightarrow> (\<exists>w. fst (virDomainSetMemoryFlags E (vdom v) (back_target v) w) = 0)" by auto
  have "seen w' = seen w @ replicate k (vdom v, back_target v)"
    using k(3) observesD(2) [OF assms(1)] by (simp add: w' SetVmMemoryStatsPeriod_def)
  moreover have "restored E v (replicate k (vdom v, back_target v))"
    unfolding restored_def using True k(1,2,4) by auto
  ultimately show ?thesis by blast
next
  case False
  with assms(2) have "w' = SetVmMemoryStatsPeriod E (Some v) False w" by (auto simp: back_one_def)
  then have "seen w' = seen w" using observesD(2) [OF assms(1)] by (simp add: SetVmMemoryStatsPeriod_def)
  with False show ?thesis by (intro exI [of _ "[]"]) (simp add: restored_def)
qed

lemma BalloonBackVmMem_requests:
  assumes "vmlist_inv s" and "\<not> lock s" and "observes E seen"
  shows "\<exists>s' rs. BalloonBackVmMem E s = Some s' \<and> vmlist_inv s' \<and> list_frame s s' \<and>
    domainsListHead s' = domainsListHead s \<and> vms s' = vms s \<and>
    seen (world s') = seen (world s) @ concat rs \<and> list_all2 (restored E) (vms s) rs"
proof -
  let ?s1 = "s\<lparr>lock := True\<rparr>"
  have inv: "vmlist_inv ?s1" using assms(1) by simp
  obtain u where u: "sweep (back_one E) ?s1 = Some u" using back_step.sweep_runs [OF inv] by auto
  note ok = back_step.sweep_ok [OF inv u]
  have "list_all2 (=) (vms ?s1) (vms u)"
    by (rule list.rel_mono_strong [OF ok(5)]) (auto simp: back_one_def)
  then have v: "vms u = vms s" by (simp add: list.rel_eq vms_def)
  have "\<exists>rs. seen (world u) = seen (world ?s1) @ concat rs \<and> list_all2 (restored E) (vms ?s1) rs"
    by (rule back_step.sweep_log [OF inv u]) (rule back_one_seen [OF assms(3)])
  then obtain rs where "seen (world u) = seen (world s) @ concat rs" "list_all2 (restored E) (vms s) rs"
    by (auto simp: vms_def)
  moreover have "BalloonBackVmMem E s = Some (u\<lparr>lock := False\<rparr>)" "list_frame s (u\<lparr>lock := False\<rparr>)"
    using u ok(2) assms(2) by (simp_all add: BalloonBackVmMem_def mutex list_frame_def)
  ultimately show ?thesis using ok(1,3) v
    by (intro exI [of _ "u\<lparr>lock := False\<rparr>"] exI [of _ rs]) (simp add: vms_def)
qed

lemma sole_refs_vms: "vmlist_inv s \<Longrightarrow> sole_refs s \<longleftrightarrow> (\<forall>v \<in> set (vms s). refcount v = 1)"
proof -
  assume inv: "vmlist_inv s"
  have "vmheap s a = Some v \<Longrightarrow> v \<in> set (vms s)" for a v
    using vmlist_invD(2) [OF inv] by (auto simp: vms_def intro!: image_eqI [of _ _ a])
  moreover have "v \<in> set (vms s) \<Longrightarrow> \<exists>a. vmheap s a = Some v" for v
    using vmlist_inv_heap [OF inv] by (fastforce simp: vms_def)
  ultimately show ?thesis unfolding sole_refs_def by metis
qed

lemma VMInfoUnref_seen:
  assumes "observes E seen" and "VMInfoUnref E a s = Some s'"
  shows "seen (world s') = seen (world s)"
  using assms(2) observesD(3) [OF assms(1)]
  by (auto simp: VMInfoUnref_def DeleteVMFromList_def FreeVM_def put_vm_def Let_def
      split: Option.bind_splits if_splits option.splits)

lemma FreeAllVM_seen:
  assumes "observes E seen" and "FreeAllVM E s = Some s'"
  shows "seen (world s') = seen (world s)"
proof -
  have "foreach (VMInfoUnref E) as t = Some t' \<Longrightarrow> seen (world t') = seen (world t)" for as t t'
    by (induction as arbitrary: t) (auto dest: VMInfoUnref_seen [OF assms(1)] split: Option.bind_splits)
  with assms(2) show ?thesis
    by (auto simp: FreeAllVM_def mutex split: Option.bind_splits if_splits)
qed



section \<open>Instances\<close>

text \<open>A list with one VM in the middle of an inflation that has reached its target.\<close>

definition busy_state :: "ref_world mstate" where
  "busy_state = demo_state\<lparr>vmheap := [10 \<mapsto> shrinking_vm]\<rparr>"

lemma busy_vms: "vms busy_state = [shrinking_vm]"
  by (simp add: vms_def busy_state_def demo_state_def)

lemma busy_state_inv: "vmlist_inv busy_state" "sole_refs busy_state" "\<not> lock busy_state"
  using shrinking_vm(1) demo_state_inv busy_vms
  by (auto simp: vmlist_inv_def sole_refs_def busy_state_def demo_state_def init_mstate_def
      shrinking_vm_def demo_vm_def fresh_vm_def zero_vm_def split: if_splits)

lemma ref_observes: "observes ref_ext snd"
  by (simp add: observes_def ref_ext_def)

theorem balloon_section_safe_witness:
  "\<exists>s' rs. balloon_section ref_ext busy_state = Some s' \<and> snd (world s') = concat rs \<and>
     list_all2 (\<lambda>v r. r = [] \<or> (\<exists>t. r = [(vdom v, t)] \<and> uint t \<le> memory v \<and>
                 min (memory v) 1048576 - 2048 \<le> uint t)) [shrinking_vm] rs"
proof -
  have "percents_ok (cfg busy_state)"
    by (simp add: percents_ok_def busy_state_def demo_state_def init_mstate_def init_globals_def)
  moreover have "\<forall>v \<in> set (vms busy_state). vm_sane v \<and> 2048 \<le> memory v"
    by (simp add: busy_vms vm_sane_def sizes_ok_def guestFree_def shrinking_vm_def demo_vm_def
        fresh_vm_def zero_vm_def zero_stats_def zero_params_def)
  moreover have "snd (world busy_state) = []" by (simp add: busy_state_def demo_state_def init_mstate_def)
  ultimately show ?thesis
    using balloon_section_safe [OF busy_state_inv(1,3) _ ref_observes] by (auto simp: busy_vms)
qed




end
