(* ===== verification/Libvirt_Events.thy ===== *)
theory Libvirt_Events
  imports Vmlist Util_Sync
begin

text \<open>
  src/libvirt_helper.c: the connection, the initial collection of the VMs, the lifecycle events and
  the pieces of \<open>DomainEventProcessThread\<close>. The thread's loop runs until another thread sets
  \<open>g_stopMemlinkd\<close>; its turns are steps of theory Daemon.
\<close>

section \<open>Operations\<close>

definition LIBVIRT_CONN_URL :: string where
  "LIBVIRT_CONN_URL = ''qemu:///system''"

partial_function (option) connect_loop :: "'w ext \<Rightarrow> 'w \<Rightarrow> (nat \<times> 'w) option" where
  [code]: "connect_loop E w =
     (case virConnectOpen E LIBVIRT_CONN_URL w of
       (Some c, w1) \<Rightarrow> Some (c, w1)
     | (None, w1) \<Rightarrow> do { w2 \<leftarrow> SleepApprox E 1 w1; connect_loop E w2 })"

text \<open>A connection that is not alive (or whose state cannot be determined) is closed first.\<close>

definition drop_dead :: "'w ext \<Rightarrow> nat option \<Rightarrow> 'w \<Rightarrow> nat option \<times> 'w" where
  "drop_dead E conn w =
     (case conn of
       None \<Rightarrow> (None, w)
     | Some c \<Rightarrow>
        (let (alive, w1) = virConnectIsAlive E (Some c) w
         in if alive \<noteq> 1 then (None, virConnectClose E c w1) else (Some c, w1)))"

definition ConnectLibvirt :: "'w ext \<Rightarrow> 'w mstate \<Rightarrow> 'w mstate option" where
  "ConnectLibvirt E s =
     (let (conn, w) = drop_dead E (g_libvirtConn s) (world s)
      in case conn of
           Some c \<Rightarrow> Some (s\<lparr>g_libvirtConn := Some c, world := w\<rparr>)
         | None \<Rightarrow> do { (c, w1) \<leftarrow> connect_loop E w;
                        Some (s\<lparr>g_libvirtConn := Some c, world := w1\<rparr>) })"

text \<open>
  The array has \<open>domNum\<close> elements, zeroed and then filled by libvirt; a count beyond them would be
  read past its end.
\<close>

definition CollectAddCurrentVMs :: "'w ext \<Rightarrow> 'w mstate \<Rightarrow> 'w mstate option" where
  "CollectAddCurrentVMs E s =
     (case g_libvirtConn s of
       None \<Rightarrow> Some s
     | Some c \<Rightarrow>
        (let (domNum, w1) = virConnectNumOfDomains E c (world s)
         in if domNum < 0 \<or> domNum = 0 then Some (s\<lparr>world := w1\<rparr>)
            else
              let n = nat domNum; (ok, w2) = alloc_ok E w1
              in if \<not> ok then Some (s\<lparr>world := w2\<rparr>)
                 else if memset_s E (4 * n) (4 * n) \<noteq> 0 then Some (s\<lparr>world := w2\<rparr>)
                 else
                   let ((ret, ids), w3) = virConnectListDomains E c domNum w2;
                       domids = take n (ids @ replicate n 0)
                   in if ret < 0 then Some (s\<lparr>world := w3\<rparr>)
                      else if n < nat ret then None
                      else foreach (FindAddVMToList E) (take (nat ret) domids) (s\<lparr>world := w3\<rparr>)))"

definition ProcessDomainEvent :: "'w ext \<Rightarrow> int \<Rightarrow> string \<Rightarrow> int \<Rightarrow> 'w mstate \<Rightarrow> 'w mstate option" where
  "ProcessDomainEvent E did name event s =
     (if event = VIR_DOMAIN_EVENT_STARTED then FindAddVMToList E did s
      else if event = VIR_DOMAIN_EVENT_STOPPED then FindDeleteVMFromList E name s
      else Some s)"

definition DomainEventCallback :: "'w ext \<Rightarrow> vir_event \<Rightarrow> 'w mstate \<Rightarrow> (int \<times> 'w mstate) option" where
  "DomainEventCallback E ev s =
     (case ev_dom ev of
       None \<Rightarrow> Some (-1, s)
     | Some d \<Rightarrow>
        (let (name, w1) = virDomainGetName E (Some d) (world s)
         in case name of
              None \<Rightarrow> Some (-1, s\<lparr>world := w1\<rparr>)
            | Some n \<Rightarrow>
               (let (i, w2) = virDomainGetID E (Some d) w1
                in do { s' \<leftarrow> ProcessDomainEvent E (sint i) n (ev_type ev) (s\<lparr>world := w2\<rparr>);
                        Some (0, s') })))"

text \<open>Registration stops at the first failure; the entry then keeps the negative id.\<close>

fun register_events ::
    "'w ext \<Rightarrow> nat option \<Rightarrow> DomainEventData list \<Rightarrow> 'w \<Rightarrow> (int \<times> DomainEventData list) \<times> 'w" where
  "register_events E conn [] w = ((0, []), w)"
| "register_events E conn (e # es) w =
     (let (i, w1) = virConnectDomainEventRegisterAny E conn (event_no e) w;
          e' = e\<lparr>event_id := i\<rparr>
      in if i < 0 then ((-1, e' # es), w1)
         else let ((r, es'), w2) = register_events E conn es w1 in ((r, e' # es'), w2))"

definition DomainEventsRegister :: "'w ext \<Rightarrow> 'w mstate \<Rightarrow> int \<times> 'w mstate" where
  "DomainEventsRegister E s =
     (let ((r, es), w) = register_events E (g_libvirtConn s) (g_domainEvents s) (world s)
      in (r, s\<lparr>g_domainEvents := es, world := w\<rparr>))"

fun deregister_events ::
    "'w ext \<Rightarrow> nat option \<Rightarrow> DomainEventData list \<Rightarrow> 'w \<Rightarrow> DomainEventData list \<times> 'w" where
  "deregister_events E conn [] w = ([], w)"
| "deregister_events E conn (e # es) w =
     (let (e', w1) = (if event_id e \<ge> 0
                      then (e\<lparr>event_id := -1\<rparr>, virConnectDomainEventDeregisterAny E conn (event_id e) w)
                      else (e, w));
          (es', w2) = deregister_events E conn es w1
      in (e' # es', w2))"

definition DomainEventsDeregister :: "'w ext \<Rightarrow> 'w mstate \<Rightarrow> 'w mstate" where
  "DomainEventsDeregister E s =
     (let (es, w) = deregister_events E (g_libvirtConn s) (g_domainEvents s) (world s)
      in s\<lparr>g_domainEvents := es, world := w\<rparr>)"

text \<open>
  The parts of a turn of the event thread: the rebuild of the list under \<open>requestLock\<close>, the
  notification, the inner loop that runs libvirt's event loop and thereby the callbacks while the
  connection may be alive, and the clean-up.
\<close>

definition rebuild_list :: "'w ext \<Rightarrow> 'w mstate \<Rightarrow> 'w mstate option" where
  "rebuild_list E s =
     do { s1 \<leftarrow> lock_request s;
          s2 \<leftarrow> FreeAllVM E s1;
          s3 \<leftarrow> CollectAddCurrentVMs E s2;
          unlock_request s3 }"

definition notify_ready :: "'w ext \<Rightarrow> bool \<Rightarrow> 'w mstate \<Rightarrow> bool \<times> 'w mstate" where
  "notify_ready E initFlag s =
     (if \<not> initFlag \<and> g_stopMemlinkd s \<noteq> 1
      then (True, s\<lparr>world := snd (SemPost E (world s))\<rparr>)
      else (initFlag, s\<lparr>g_libvirtChange := 1\<rparr>))"

definition run_callbacks :: "'w ext \<Rightarrow> vir_event list \<Rightarrow> 'w mstate \<Rightarrow> 'w mstate option" where
  "run_callbacks E evs s = foreach (\<lambda>ev s. map_option snd (DomainEventCallback E ev s)) evs s"

text \<open>One turn of the inner loop after the connection was found alive.\<close>

definition event_turn :: "'w ext \<Rightarrow> 'w mstate \<Rightarrow> 'w mstate option" where
  "event_turn E s =
     (let ((ret, evs), w1) = virEventRunDefaultImpl E (world s)
      in do { s1 \<leftarrow> run_callbacks E evs (s\<lparr>world := w1\<rparr>);
              if ret < 0 then do { w2 \<leftarrow> SleepApprox E 1 (world s1); Some (s1\<lparr>world := w2\<rparr>) }
              else Some s1 })"

partial_function (option) event_loop :: "'w ext \<Rightarrow> 'w mstate \<Rightarrow> 'w mstate option" where
  [code]: "event_loop E s =
     (case virConnectIsAlive E (g_libvirtConn s) (world s) of
       (alive, w1) \<Rightarrow>
         if alive \<noteq> 0 then do { s1 \<leftarrow> event_turn E (s\<lparr>world := w1\<rparr>); event_loop E s1 }
         else Some (s\<lparr>world := w1\<rparr>))"

definition cleanup_events :: "'w ext \<Rightarrow> 'w mstate \<Rightarrow> 'w mstate option" where
  "cleanup_events E s =
     (let s1 = DomainEventsDeregister E s
      in do { w \<leftarrow> SleepApprox E 1 (world s1); Some (s1\<lparr>world := w\<rparr>) })"

text \<open>The body of the thread's loop; the flag is \<open>initFlag\<close>.\<close>

definition DomainEventProcessThread_body :: "'w ext \<Rightarrow> bool \<Rightarrow> 'w mstate \<Rightarrow> (bool \<times> 'w mstate) option" where
  "DomainEventProcessThread_body E initFlag s =
     do { s1 \<leftarrow> ConnectLibvirt E s;
          let (r, s2) = DomainEventsRegister E s1;
          if r \<noteq> 0 then do { s' \<leftarrow> cleanup_events E s2; Some (initFlag, s') }
          else do {
            s3 \<leftarrow> rebuild_list E s2;
            let (initFlag', s4) = notify_ready E initFlag s3;
            s5 \<leftarrow> event_loop E s4;
            s' \<leftarrow> cleanup_events E s5;
            Some (initFlag', s') } }"

section \<open>Connecting\<close>

text \<open>The connection is refused \<open>n\<close> times, and each time the thread sleeps; then it is accepted.\<close>

fun refused :: "'w ext \<Rightarrow> nat \<Rightarrow> 'w \<Rightarrow> bool" where
  "refused E 0 w = (fst (virConnectOpen E LIBVIRT_CONN_URL w) \<noteq> None)"
| "refused E (Suc n) w =
     (case virConnectOpen E LIBVIRT_CONN_URL w of
       (Some _, _) \<Rightarrow> False
     | (None, w1) \<Rightarrow> (case SleepApprox E 1 w1 of None \<Rightarrow> False | Some w2 \<Rightarrow> refused E n w2))"

lemma connect_loop_returns: "refused E n w \<Longrightarrow> \<exists>c w'. connect_loop E w = Some (c, w')"
proof (induction n arbitrary: w)
  case 0
  then show ?case by (subst connect_loop.simps) (auto split: prod.splits option.splits)
next
  case (Suc n)
  then obtain w1 w2 where "virConnectOpen E LIBVIRT_CONN_URL w = (None, w1)" "SleepApprox E 1 w1 = Some w2"
    "refused E n w2" by (auto split: prod.splits option.splits)
  with Suc.IH show ?case by (subst connect_loop.simps) simp
qed

text \<open>
  C31: Connecting. If libvirtd accepts a connection after finitely many refusals, \<open>ConnectLibvirt\<close>
  returns with a connection, having kept an existing one only if libvirt reports it alive; it
  changes nothing else.
\<close>

theorem ConnectLibvirt_returns:
  assumes "\<And>w. \<exists>n. refused E n w"
  shows "\<exists>c w'. ConnectLibvirt E s = Some (s\<lparr>g_libvirtConn := Some c, world := w'\<rparr>) \<and>
    (g_libvirtConn s = Some c \<longrightarrow>
       fst (virConnectIsAlive E (Some c) (world s)) = 1 \<or> (\<exists>w1. connect_loop E w1 = Some (c, w')))"
proof -
  obtain conn w where d: "drop_dead E (g_libvirtConn s) (world s) = (conn, w)" by fastforce
  show ?thesis
  proof (cases conn)
    case None
    from assms [of w] obtain n where "refused E n w" ..
    from connect_loop_returns [OF this] obtain c w' where l: "connect_loop E w = Some (c, w')" by (elim exE)
    with None d have "ConnectLibvirt E s = Some (s\<lparr>g_libvirtConn := Some c, world := w'\<rparr>)"
      by (simp add: ConnectLibvirt_def)
    with l show ?thesis by metis
  next
    case (Some c)
    with d have "ConnectLibvirt E s = Some (s\<lparr>g_libvirtConn := Some c, world := w\<rparr>)"
      by (simp add: ConnectLibvirt_def)
    moreover have "fst (virConnectIsAlive E (Some c) (world s)) = 1"
      using d Some by (auto simp: drop_dead_def split: option.splits prod.splits if_splits)
    ultimately show ?thesis by blast
  qed
qed

lemma ConnectLibvirt_frame:
  "ConnectLibvirt E s = Some s' \<Longrightarrow> \<exists>c w. s' = s\<lparr>g_libvirtConn := Some c, world := w\<rparr>"
  by (auto simp: ConnectLibvirt_def split: prod.splits option.splits Option.bind_splits)

section \<open>Collecting\<close>

text \<open>
  What libvirt documents of the listing: at most as many ids as asked for, and as many as it
  reports; the number of domains is an \<open>int\<close>.
\<close>

definition listing_ok :: "'w ext \<Rightarrow> bool" where
  "listing_ok E \<longleftrightarrow>
     (\<forall>c w. in_s32 (fst (virConnectNumOfDomains E c w))) \<and>
     (\<forall>c n w ret ids w'. virConnectListDomains E c n w = ((ret, ids), w') \<longrightarrow>
        0 \<le> ret \<longrightarrow> ret \<le> n \<and> length ids = nat ret)"

lemma sole_refs_frame [simp]:
  "sole_refs (s\<lparr>world := w\<rparr>) = sole_refs s" "sole_refs (s\<lparr>lock := b\<rparr>) = sole_refs s"
  "sole_refs (s\<lparr>requestLock := b\<rparr>) = sole_refs s"
  by (simp_all add: sole_refs_def)

lemma reg_frame [simp]:
  "reg (s\<lparr>world := w\<rparr>) = reg s" "reg (s\<lparr>lock := b\<rparr>) = reg s" "reg (s\<lparr>requestLock := b\<rparr>) = reg s"
  by (simp_all add: reg_def vms_def)

lemma FindAdd_more:
  assumes "calloc_ok E" and "vmlist_inv s" and "\<not> lock s" and "FindAddVMToList E did s = Some s'"
  shows "sole_refs s \<Longrightarrow> sole_refs s'" and "count s' \<le> count s + 1"
  using FindAddVMToList_outcome [OF assms(2,3,1,4)]
  by (auto simp: same_list_def added_def sole_refs_def split: if_splits)

lemma reg_add_fst: "fst ` set (reg_add i adm r) \<subseteq> insert i (fst ` set r)"
  by (auto simp: reg_add_def split: option.splits)

text \<open>Adding a sequence of ids.\<close>

lemma add_all:
  assumes "calloc_ok E" and "strtok_s_ok E" and "vmlist_inv s" and "sole_refs s" and "\<not> lock s"
    and "in_s32 (count s + int (length ids))"
  shows "\<exists>s'. foreach (FindAddVMToList E) ids s = Some s' \<and> vmlist_inv s' \<and> sole_refs s' \<and>
    list_frame s s' \<and> fst ` set (reg s') \<subseteq> fst ` set (reg s) \<union> set ids"
  using assms(3-6)
proof (induction ids arbitrary: s)
  case Nil
  then show ?case by simp
next
  case (Cons i ids)
  have "0 \<le> count s" using Cons.prems(1) by (simp add: vmlist_inv_def)
  then have room: "in_s32 (count s + 1)" using Cons.prems(4) unfolding in_s32_def by simp
  from FindAddVMToList_reg [OF assms(1,2) Cons.prems(1,3) room] obtain s1 where
    s1: "FindAddVMToList E i s = Some s1" "vmlist_inv s1" "list_frame s s1"
      "reg s1 = reg_add i (admit E i s) (reg s)" by blast
  note more = FindAdd_more [OF assms(1) Cons.prems(1,3) s1(1)]
  have "in_s32 (count s1 + int (length ids))"
    using more(2) Cons.prems(4) vmlist_invD(3) [OF s1(2)] unfolding in_s32_def by simp
  moreover have "\<not> lock s1" using s1(3) Cons.prems(3) by (simp add: list_frame_def)
  ultimately obtain s' where s': "foreach (FindAddVMToList E) ids s1 = Some s'" "vmlist_inv s'" "sole_refs s'"
    "list_frame s1 s'" "fst ` set (reg s') \<subseteq> fst ` set (reg s1) \<union> set ids"
    using Cons.IH [OF s1(2) more(1) [OF Cons.prems(2)]] by blast
  have "fst ` set (reg s') \<subseteq> fst ` set (reg s) \<union> set (i # ids)"
    using s'(5) reg_add_fst [of i "admit E i s" "reg s"] by (auto simp: s1(4))
  with s1(1,3) s' show ?case by (auto intro: list_frame_trans)
qed

lemma CollectAdd_runs:
  assumes "calloc_ok E" and "strtok_s_ok E" and "listing_ok E" and "vmlist_inv s" and "sole_refs s"
    and "\<not> lock s" and "count s = 0" and "reg s = []"
  shows "\<exists>s'. CollectAddCurrentVMs E s = Some s' \<and> vmlist_inv s' \<and> sole_refs s' \<and> list_frame s s' \<and>
    (reg s' = [] \<or> (\<exists>c n w ret ids w'. g_libvirtConn s = Some c \<and>
       virConnectListDomains E c n w = ((ret, ids), w') \<and> 0 \<le> ret \<and> fst ` set (reg s') \<subseteq> set ids))"
proof (cases "g_libvirtConn s")
  case None
  with assms show ?thesis by (simp add: CollectAddCurrentVMs_def)
next
  case (Some c)
  obtain domNum w1 where d: "virConnectNumOfDomains E c (world s) = (domNum, w1)" by fastforce
  obtain ok w2 where a: "alloc_ok E w1 = (ok, w2)" by fastforce
  obtain ret ids w3 where l: "virConnectListDomains E c domNum w2 = ((ret, ids), w3)" by (metis surj_pair)
  have stop: "\<exists>s'. Some (s\<lparr>world := w\<rparr>) = Some s' \<and> vmlist_inv s' \<and> sole_refs s' \<and> list_frame s s' \<and>
      (reg s' = [] \<or> Q s')" for w Q
    using assms(4,5,8) by (simp add: list_frame_def)
  show ?thesis
  proof (cases "domNum \<le> 0 \<or> \<not> ok \<or> memset_s E (4 * nat domNum) (4 * nat domNum) \<noteq> 0 \<or> ret < 0")
    case True
    then consider "domNum \<le> 0" | "\<not> domNum \<le> 0" "\<not> ok"
      | "\<not> domNum \<le> 0" "ok" "memset_s E (4 * nat domNum) (4 * nat domNum) \<noteq> 0"
      | "\<not> domNum \<le> 0" "ok" "memset_s E (4 * nat domNum) (4 * nat domNum) = 0" "ret < 0" by metis
    then have "CollectAddCurrentVMs E s = Some (s\<lparr>world := w1\<rparr>) \<or>
        CollectAddCurrentVMs E s = Some (s\<lparr>world := w2\<rparr>) \<or> CollectAddCurrentVMs E s = Some (s\<lparr>world := w3\<rparr>)"
      by cases (use Some d a l in \<open>simp_all add: CollectAddCurrentVMs_def Let_def\<close>)
    with stop show ?thesis by metis
  next
    case False
    have "in_s32 domNum" using assms(3) d unfolding listing_ok_def by (metis fst_conv)
    moreover have ids: "ret \<le> domNum" "length ids = nat ret"
      using assms(3) l False unfolding listing_ok_def by (metis linorder_not_less)+
    ultimately have room: "in_s32 (count (s\<lparr>world := w3\<rparr>) + int (length ids))"
      using False assms(7) by (simp add: in_s32_def)
    have "take (nat ret) (take (nat domNum) (ids @ replicate (nat domNum) 0)) = ids"
      using ids False by (simp add: min_def)
    then have "CollectAddCurrentVMs E s = foreach (FindAddVMToList E) ids (s\<lparr>world := w3\<rparr>)"
      using Some d a l False ids(1) by (simp add: CollectAddCurrentVMs_def Let_def nat_le_iff)
    moreover have "vmlist_inv (s\<lparr>world := w3\<rparr>)" "sole_refs (s\<lparr>world := w3\<rparr>)" "\<not> lock (s\<lparr>world := w3\<rparr>)"
      using assms(4-6) by simp_all
    note add_all [OF assms(1,2) this room]
    ultimately obtain s' where s': "CollectAddCurrentVMs E s = Some s'" "vmlist_inv s'" "sole_refs s'"
      "list_frame (s\<lparr>world := w3\<rparr>) s'" "fst ` set (reg s') \<subseteq> fst ` set (reg s) \<union> set ids" by auto
    then have "fst ` set (reg s') \<subseteq> set ids" "list_frame s s'" using assms(8) by (auto simp: list_frame_def)
    with s' Some l False show ?thesis by (metis linorder_not_less)
  qed
qed


section \<open>Events\<close>

lemma event_reg:
  assumes "calloc_ok E" and "strtok_s_ok E" and "vmlist_inv s" and "sole_refs s" and "\<not> lock s"
    and "in_s32 (count s + 1)"
  shows "\<exists>s'. ProcessDomainEvent E did name ev s = Some s' \<and> vmlist_inv s' \<and> sole_refs s' \<and> list_frame s s' \<and>
    reg s' = (if ev = 2 then reg_add did (admit E did s) (reg s)
              else if ev = 5 then reg_del name (reg s) else reg s)"
proof -
  consider (start) "ev = 2" | (stop) "ev = 5" | (other) "ev \<noteq> 2" "ev \<noteq> 5" by blast
  then show ?thesis
  proof cases
    case start
    from FindAddVMToList_reg [OF assms(1-3,5,6), of did] obtain s' where s': "FindAddVMToList E did s = Some s'"
      "vmlist_inv s'" "list_frame s s'" "reg s' = reg_add did (admit E did s) (reg s)" by (elim exE conjE)
    with FindAdd_more(1) [OF assms(1,3,5) s'(1) assms(4)] start show ?thesis
      by (simp add: ProcessDomainEvent_def)
  next
    case stop
    with FindDeleteVMFromList_reg [OF assms(3-5), of E name] show ?thesis
      by (simp add: ProcessDomainEvent_def)
  next
    case other
    with assms(3,4) show ?thesis by (simp add: ProcessDomainEvent_def)
  qed
qed

text \<open>
  C19: Lifecycle events. A callback for a domain whose name libvirt knows returns 0 and has exactly the
  registry's effect: a start adds the domain under the id libvirt gives (if it is admitted and
  not there), a stop removes the first VM of that name, every other event changes nothing; the
  list stays well formed and the lock is released.
\<close>

theorem DomainEventCallback_refines:
  assumes "calloc_ok E" and "strtok_s_ok E" and "vmlist_inv s" and "sole_refs s" and "\<not> lock s"
    and "in_s32 (count s + 1)" and "ev_dom ev = Some d"
    and "virDomainGetName E (Some d) (world s) = (Some n, w1)" and "virDomainGetID E (Some d) w1 = (i, w2)"
  shows "\<exists>s'. DomainEventCallback E ev s = Some (0, s') \<and> vmlist_inv s' \<and> sole_refs s' \<and> list_frame s s' \<and>
    reg s' = (if ev_type ev = 2 then reg_add (sint i) (admit E (sint i) (s\<lparr>world := w2\<rparr>)) (reg s)
              else if ev_type ev = 5 then reg_del n (reg s) else reg s)"
proof -
  let ?s = "s\<lparr>world := w2\<rparr>"
  have "vmlist_inv ?s" "sole_refs ?s" "\<not> lock ?s" "in_s32 (count ?s + 1)" using assms(3-6) by simp_all
  from event_reg [OF assms(1,2) this, of "sint i" n "ev_type ev"] obtain s' where
    s': "ProcessDomainEvent E (sint i) n (ev_type ev) ?s = Some s'" "vmlist_inv s'" "sole_refs s'" "list_frame ?s s'"
      "reg s' = (if ev_type ev = 2 then reg_add (sint i) (admit E (sint i) ?s) (reg ?s)
              else if ev_type ev = 5 then reg_del n (reg ?s) else reg ?s)" by (elim exE conjE)
  have "DomainEventCallback E ev s = Some (0, s')"
    using assms(7-9) s'(1) by (simp add: DomainEventCallback_def)
  moreover have "list_frame s s'" using s'(4) by (simp add: list_frame_def)
  ultimately show ?thesis using s'(2,3,5) by simp
qed

section \<open>The turns of the event thread\<close>

interpretation process_event: vmlist_op "\<lambda>E. ProcessDomainEvent E did name ev" for did name ev
proof
  fix E :: "'w ext" and s s' :: "'w mstate"
  assume *: "calloc_ok E" "vmlist_inv s" "\<not> lock s" "ProcessDomainEvent E did name ev s = Some s'"
  from *(4) show "vmlist_inv s' \<and> list_frame s s'"
    unfolding ProcessDomainEvent_def
    using find_add.safe [OF *(1-3), of did s'] find_delete.safe [OF *(1-3), of name s'] *(2)
    by (simp split: if_splits)
qed

interpretation callback: vmlist_op "\<lambda>E s. map_option snd (DomainEventCallback E ev s)" for ev
proof
  fix E :: "'w ext" and s s' :: "'w mstate"
  assume *: "calloc_ok E" "vmlist_inv s" "\<not> lock s" "map_option snd (DomainEventCallback E ev s) = Some s'"
  from *(4) obtain w where "s' = s\<lparr>world := w\<rparr> \<or> s' = s \<or>
      (\<exists>did n. ProcessDomainEvent E did n (ev_type ev) (s\<lparr>world := w\<rparr>) = Some s')"
    by (auto simp: DomainEventCallback_def split: option.splits prod.splits Option.bind_splits)
  moreover have "vmlist_inv (s\<lparr>world := w\<rparr>)" "\<not> lock (s\<lparr>world := w\<rparr>)" using *(2,3) by simp_all
  ultimately show "vmlist_inv s' \<and> list_frame s s'"
    using process_event.safe [OF *(1), of "s\<lparr>world := w\<rparr>"] *(2) by (auto simp: list_frame_def)
qed

lemma run_callbacks_op: "vmlist_op (\<lambda>E. run_callbacks E evs)"
  unfolding run_callbacks_def by (rule vmlist_op_foreach) (rule callback.vmlist_op_axioms)

lemma add_ids_op: "vmlist_op (\<lambda>E. foreach (FindAddVMToList E) xs)"
  by (rule vmlist_op_foreach) (rule find_add.vmlist_op_axioms)

interpretation collect: vmlist_op CollectAddCurrentVMs
proof
  fix E :: "'w ext" and s s' :: "'w mstate"
  assume *: "calloc_ok E" "vmlist_inv s" "\<not> lock s" "CollectAddCurrentVMs E s = Some s'"
  from *(4) obtain w xs where "s' = s\<lparr>world := w\<rparr> \<or> s' = s \<or> foreach (FindAddVMToList E) xs (s\<lparr>world := w\<rparr>) = Some s'"
    by (auto simp: CollectAddCurrentVMs_def Let_def split: option.splits prod.splits if_splits)
  moreover have "vmlist_inv (s\<lparr>world := w\<rparr>)" "\<not> lock (s\<lparr>world := w\<rparr>)" using *(2,3) by simp_all
  ultimately show "vmlist_inv s' \<and> list_frame s s'"
    using vmlist_op.safe [OF add_ids_op *(1), of "s\<lparr>world := w\<rparr>" xs s'] *(2)
    by (auto simp: list_frame_def)
qed

lemma event_turn_safe:
  assumes "calloc_ok E" and "vmlist_inv s" and "\<not> lock s" and "event_turn E s = Some s'"
  shows "vmlist_inv s' \<and> list_frame s s'"
proof -
  obtain ret evs w1 where r: "virEventRunDefaultImpl E (world s) = ((ret, evs), w1)" by (metis surj_pair)
  with assms(4) obtain s1 w2 where s1: "run_callbacks E evs (s\<lparr>world := w1\<rparr>) = Some s1"
    and s': "s' = s1\<lparr>world := w2\<rparr> \<or> s' = s1"
    by (auto simp: event_turn_def split: Option.bind_splits if_splits)
  have "vmlist_inv (s\<lparr>world := w1\<rparr>)" "\<not> lock (s\<lparr>world := w1\<rparr>)" using assms(2,3) by simp_all
  from vmlist_op.safe [OF run_callbacks_op assms(1) this s1] s' show ?thesis
    by (auto simp: list_frame_def)
qed

definition loop_keeps :: "'w ext \<Rightarrow> 'w mstate \<Rightarrow> 'w mstate \<Rightarrow> bool" where
  "loop_keeps E s s' \<longleftrightarrow> (calloc_ok E \<longrightarrow> vmlist_inv s \<longrightarrow> \<not> lock s \<longrightarrow> vmlist_inv s' \<and> list_frame s s')"

lemma event_loop_safe:
  assumes "event_loop E s = Some s'"
  shows "loop_keeps E s s'"
proof (rule event_loop.raw_induct [OF _ assms])
  fix f :: "'a ext \<Rightarrow> 'a mstate \<Rightarrow> 'a mstate option" and E :: "'a ext" and s s' :: "'a mstate"
  assume IH: "\<And>E s y. f E s = Some y \<Longrightarrow> loop_keeps E s y"
    and body: "(case virConnectIsAlive E (g_libvirtConn s) (world s) of
       (alive, w1) \<Rightarrow>
         if alive \<noteq> 0 then do { s1 \<leftarrow> event_turn E (s\<lparr>world := w1\<rparr>); f E s1 }
         else Some (s\<lparr>world := w1\<rparr>)) = Some s'"
  show "loop_keeps E s s'"
    unfolding loop_keeps_def
  proof (intro impI)
    assume *: "calloc_ok E" "vmlist_inv s" "\<not> lock s"
    obtain alive w1 where a: "virConnectIsAlive E (g_libvirtConn s) (world s) = (alive, w1)" by fastforce
    let ?s = "s\<lparr>world := w1\<rparr>"
    have inv: "vmlist_inv ?s" "\<not> lock ?s" using *(2,3) by simp_all
    show "vmlist_inv s' \<and> list_frame s s'"
    proof (cases "alive = 0")
      case True
      with body a inv show ?thesis by (auto simp: list_frame_def)
    next
      case False
      with body a obtain s1 where s1: "event_turn E ?s = Some s1" "f E s1 = Some s'"
        by (auto split: Option.bind_splits)
      from event_turn_safe [OF *(1) inv s1(1)] have t: "vmlist_inv s1" "list_frame ?s s1" by auto
      moreover have "\<not> lock s1" using t(2) inv(2) by (simp add: list_frame_def)
      moreover have "list_frame s ?s" by (simp add: list_frame_def)
      ultimately show ?thesis
        using IH [OF s1(2)] *(1) unfolding loop_keeps_def by (blast intro: list_frame_trans)
    qed
  qed
qed

lemma rebuild_list_safe:
  assumes "calloc_ok E" and "vmlist_inv s" and "\<not> lock s" and "\<not> requestLock s" and "rebuild_list E s = Some s'"
  shows "vmlist_inv s' \<and> list_frame s s'"
proof -
  let ?s1 = "s\<lparr>requestLock := True\<rparr>"
  have op: "vmlist_op (\<lambda>E s. do { s2 \<leftarrow> FreeAllVM E s; CollectAddCurrentVMs E s2 })"
    by (rule vmlist_op_seq) (rule free_all.vmlist_op_axioms, rule collect.vmlist_op_axioms)
  from assms(4,5) obtain s3 where s3: "do { s2 \<leftarrow> FreeAllVM E ?s1; CollectAddCurrentVMs E s2 } = Some s3"
    "unlock_request s3 = Some s'" by (auto simp: rebuild_list_def mutex split: Option.bind_splits)
  have "vmlist_inv ?s1" "\<not> lock ?s1" using assms(2,3) by simp_all
  from vmlist_op.safe [OF op assms(1) this s3(1)] s3(2) assms(4) show ?thesis
    by (auto simp: mutex list_frame_def split: if_splits)
qed

text \<open>
  What a turn of the event thread leaves alone: it changes the connection, the list, the change
  flag and the registration ids, and nothing else.
\<close>

definition event_frame :: "'w mstate \<Rightarrow> 'w mstate \<Rightarrow> bool" where
  "event_frame s s' \<longleftrightarrow> cfg s' = cfg s \<and> g_stopMemlinkd s' = g_stopMemlinkd s \<and>
     requestLock s' = requestLock s \<and> lock s' = lock s"

lemma cleanup_events_frame:
  "cleanup_events E s = Some s' \<Longrightarrow>
   \<exists>es w. s' = s\<lparr>g_domainEvents := es, world := w\<rparr> \<and> (\<forall>e \<in> set es. event_id e < 0)"
proof -
  assume c: "cleanup_events E s = Some s'"
  have neg: "deregister_events E conn es w = (es', w') \<Longrightarrow> \<forall>e \<in> set es'. event_id e < 0" for conn es w es' w'
    by (induction E conn es w arbitrary: es' w' rule: deregister_events.induct)
      (auto simp: Let_def split: prod.splits if_splits)
  obtain es w where d: "deregister_events E (g_libvirtConn s) (g_domainEvents s) (world s) = (es, w)" by fastforce
  with c obtain w' where "s' = s\<lparr>g_domainEvents := es, world := w'\<rparr>"
    by (auto simp: cleanup_events_def DomainEventsDeregister_def Let_def split: Option.bind_splits)
  with neg [OF d] show ?thesis by blast
qed


section \<open>Instances\<close>

theorem ConnectLibvirt_returns_witness:
  "\<exists>c w'. ConnectLibvirt ref_ext (init_mstate (0, [])) =
     Some ((init_mstate (0, []))\<lparr>g_libvirtConn := Some c, world := w'\<rparr>)"
proof -
  have "\<exists>n. refused ref_ext n w" for w by (rule exI [of _ 0]) (simp add: ref_ext_def)
  from ConnectLibvirt_returns [OF this, of "init_mstate (0, [])"] show ?thesis by blast
qed

definition list_ext :: "ref_world ext" where
  "list_ext = demo_ext\<lparr>virConnectNumOfDomains := (\<lambda>_ w. (1, w)),
     virConnectListDomains := (\<lambda>_ n w. (if 1 \<le> n then (1, [8]) else (min n (-1), []), w))\<rparr>"


definition stop_ext :: "ref_world ext" where
  "stop_ext = ref_ext\<lparr>virDomainGetName := (\<lambda>_ w. (Some ''vm'', w))\<rparr>"

theorem DomainEventCallback_refines_witness:
  "\<exists>s'. DomainEventCallback stop_ext \<lparr>ev_dom = Some 3, ev_type = 5, ev_detail = 0\<rparr> demo_state = Some (0, s') \<and>
     reg s' = []"
proof -
  let ?ev = "\<lparr>ev_dom = Some 3, ev_type = 5, ev_detail = 0\<rparr>"
  have a: "calloc_ok stop_ext" "strtok_s_ok stop_ext"
    using securec_okD(5) [OF ref_ext_securec]
    by (simp_all add: stop_ext_def calloc_ok_def strtok_s_ok_def ref_ext_def)
  have b: "in_s32 (count demo_state + 1)" by (simp add: demo_state_def in_s32_def)
  have c: "ev_dom ?ev = Some 3" by simp
  have d: "virDomainGetName stop_ext (Some 3) (world demo_state) = (Some ''vm'', world demo_state)"
    by (simp add: stop_ext_def)
  have e: "virDomainGetID stop_ext (Some 3) (world demo_state) = (0, world demo_state)"
    by (simp add: stop_ext_def ref_ext_def)
  from DomainEventCallback_refines [OF a demo_state_inv b c d e] show ?thesis by (auto simp: demo_reg)
qed

definition dead_ext :: "ref_world ext" where
  "dead_ext = ref_ext\<lparr>virConnectIsAlive := (\<lambda>_ w. (0, w))\<rparr>"

lemma dead_simps:
  "virConnectDomainEventRegisterAny dead_ext conn e w = (0, w)"
  "virConnectDomainEventDeregisterAny dead_ext conn e w = w"
  "virConnectNumOfDomains dead_ext c w = (-1, w)"
  by (simp_all add: dead_ext_def ref_ext_def)

lemma dead_sleep: "SleepApprox dead_ext 1 w = Some w"
  by (simp add: SleepApprox_def dead_ext_def ref_ext_def cint borrow_ns.simps)

lemma dead_loop: "event_loop dead_ext s = Some s"
  by (subst event_loop.simps) (simp add: dead_ext_def)

lemma dead_connect: "connect_loop dead_ext w = Some (0, w)"
  by (subst connect_loop.simps) (simp add: dead_ext_def ref_ext_def)


end
