(* ===== verification/Config.thy ===== *)
theory Config
  imports Vm
begin

text \<open>
  src/memlink_driver.c, second half: the configuration file. Reading a key, loading the five
  settings with their ranges, and rewriting one value through a temporary file.
\<close>

section \<open>Operations\<close>

definition MEMLINKD_CONF_FILE :: string where
  "MEMLINKD_CONF_FILE = ''/etc/memlinkd.conf''"

definition MEMLINKD_TMP_CONF_FILE :: string where
  "MEMLINKD_TMP_CONF_FILE = ''/etc/tmp-memlinkd.conf''"

abbreviation (input) LINE_MAX_CHAR :: nat where "LINE_MAX_CHAR \<equiv> 1024"
abbreviation (input) CFGOPEN_OR_MEMSET_ERROR :: int where "CFGOPEN_OR_MEMSET_ERROR \<equiv> -2"

text \<open>
  The loop runs from the end and stops at the first character of the string, which it never
  removes; on the empty string it does not run.
\<close>

fun trim_back :: "string \<Rightarrow> string" where
  "trim_back [] = []"
| "trim_back [c] = [c]"
| "trim_back (c # d # cs) = (if c = CHR '' '' \<or> c = NL \<or> c = CR then trim_back (d # cs) else c # d # cs)"

definition TrimNewLine :: "string \<Rightarrow> string" where
  "TrimNewLine s = rev (trim_back (rev s))"

definition CheckAllDigits :: "string \<Rightarrow> bool" where
  "CheckAllDigits s =
     (let s1 = dropWhile (\<lambda>c. c = CHR '' '') s
      in if s1 = [] then False
         else if hd s1 = CHR ''-'' then
           (let s2 = tl s1 in if s2 = [] \<or> \<not> isdigit (hd s2) then False else list_all isdigit s2)
         else list_all isdigit s1)"

text \<open>
  One matching line: \<open>None\<close> when the line has no number and the search goes on, otherwise the value
  returned. \<open>errno\<close> is not cleared before \<open>strtol\<close>, and the \<open>long\<close> is stored in an \<open>int\<close> before it is
  compared with the range of \<open>int\<close>.
\<close>

definition value_of_line :: "'w ext \<Rightarrow> string \<Rightarrow> 'w \<Rightarrow> int option \<times> 'w" where
  "value_of_line E l w =
     (case strstr l ''='' of
       None \<Rightarrow> (None, w)
     | Some eq \<Rightarrow>
        (let p = TrimNewLine (tl eq)
         in if \<not> CheckAllDigits p then (None, w)
            else
              let (v, endptr, range) = strtol10 p;
                  value = wrap32 v;
                  w1 = (if range then set_errno E ERANGE w else w)
              in if endptr \<noteq> [] then (Some CFGOPEN_OR_MEMSET_ERROR, w1)
                 else if get_errno E w1 = ERANGE then (Some CFGOPEN_OR_MEMSET_ERROR, w1)
                 else if \<not> in_s32 value then (Some CFGOPEN_OR_MEMSET_ERROR, w1)
                 else (Some value, w1)))"

function cfg_lines :: "'w ext \<Rightarrow> string \<Rightarrow> string \<Rightarrow> 'w \<Rightarrow> int \<times> 'w" where
  "cfg_lines E key bs w =
     (case fgets LINE_MAX_CHAR bs of
       None \<Rightarrow> (-1, w)
     | Some (line, rest) \<Rightarrow>
        (let l = cstr line;
             (r, w1) = (if strncmp_eq l key (length key) then value_of_line E l w else (None, w))
         in case r of
              Some v \<Rightarrow> (v, w1)
            | None \<Rightarrow>
               (if memset_s E LINE_MAX_CHAR LINE_MAX_CHAR \<noteq> 0 then (CFGOPEN_OR_MEMSET_ERROR, w1)
                else cfg_lines E key rest w1)))"
  by pat_completeness auto
termination
  by (relation "measure (\<lambda>(E, key, bs, w). length bs)") (auto dest: fgets_shorter [rotated])

declare cfg_lines.simps [simp del]

definition GetIntegerValueFromCfg :: "'w ext \<Rightarrow> string \<Rightarrow> 'w \<Rightarrow> int \<times> 'w" where
  "GetIntegerValueFromCfg E key w =
     (case read_file E MEMLINKD_CONF_FILE w of
       (None, w1) \<Rightarrow> (CFGOPEN_OR_MEMSET_ERROR, w1)
     | (Some bs, w1) \<Rightarrow> cfg_lines E key bs w1)"

text \<open>
  \<open>CopyToFile\<close>: the variables \<open>tmpkey\<close> and \<open>tmpValue\<close> live across the turns of the loop; \<open>fpOut\<close> is the
  output stream.
\<close>

function copy_lines :: "'w ext \<Rightarrow> int \<Rightarrow> string \<Rightarrow> int \<Rightarrow> string \<times> int \<Rightarrow> string \<Rightarrow> 'w \<Rightarrow> int \<times> 'w" where
  "copy_lines E fpOut key valueChanged tmp bs w =
     (case fgets LINE_MAX_CHAR bs of
       None \<Rightarrow> (0, w)
     | Some (line, rest) \<Rightarrow>
        (let l = cstr line
         in if (l \<noteq> [] \<and> (hd l = CHR ''#'' \<or> hd l = NL)) \<or> strstr l key = None then
              (let (r, w1) = fputs E fpOut l w
               in if r < 0 then (-1, w1)
                  else if memset_s E LINE_MAX_CHAR LINE_MAX_CHAR \<noteq> 0 then (-1, w1)
                  else copy_lines E fpOut key valueChanged tmp rest w1)
            else
              (let (rc, tmpkey, tmpValue) = sscanf_s_kv E l LINE_MAX_CHAR tmp
               in if rc < 0 then (-1, w)
                  else
                    let tmpValue' = (if tmpkey = key then valueChanged else tmpValue);
                        (r, w1) = fprintf E fpOut (tmpkey @ ''='' @ show_int tmpValue' @ [NL]) w
                    in if r < 0 then (-1, w1)
                       else if memset_s E LINE_MAX_CHAR LINE_MAX_CHAR \<noteq> 0 then (-1, w1)
                       else copy_lines E fpOut key valueChanged (tmpkey, tmpValue') rest w1)))"
  by pat_completeness auto
termination
  by (relation "measure (\<lambda>(E, fp, key, v, tmp, bs, w). length bs)") (auto dest: fgets_shorter [rotated])

declare copy_lines.simps [simp del]

definition CopyToFile :: "'w ext \<Rightarrow> string \<Rightarrow> int \<Rightarrow> string \<Rightarrow> int \<Rightarrow> 'w \<Rightarrow> int \<times> 'w" where
  "CopyToFile E fpIn fpOut key valueChanged w = copy_lines E fpOut key valueChanged ([], 0) fpIn w"

definition SetValueToCfg :: "'w ext \<Rightarrow> string \<Rightarrow> int \<Rightarrow> 'w \<Rightarrow> 'w" where
  "SetValueToCfg E key value w =
     (case read_file E MEMLINKD_CONF_FILE w of
       (None, w1) \<Rightarrow> w1
     | (Some fpIn, w1) \<Rightarrow>
        (case fopen_w E MEMLINKD_TMP_CONF_FILE w1 of
          (None, w2) \<Rightarrow> w2
        | (Some fpOut, w2) \<Rightarrow>
           (let (r, w3) = CopyToFile E fpIn fpOut key value w2;
                w4 = fclose E fpOut w3
            in if r \<noteq> 0 then w4
               else snd (rename_file E MEMLINKD_TMP_CONF_FILE MEMLINKD_CONF_FILE w4))))"

text \<open>The macro \<open>GET_INT_VALUE_FROM_CFG\<close>: \<open>None\<close> is the jump to \<open>CLEANUP\<close>.\<close>

definition GET_INT_VALUE_FROM_CFG :: "'w ext \<Rightarrow> string \<Rightarrow> int \<Rightarrow> 'w \<Rightarrow> int option \<times> 'w" where
  "GET_INT_VALUE_FROM_CFG E str dflt w =
     (let (tmp, w1) = GetIntegerValueFromCfg E str w
      in if tmp = CFGOPEN_OR_MEMSET_ERROR then (None, w1)
         else if tmp = -1 then (Some dflt, w1)
         else (Some tmp, w1))"

text \<open>The values read from the file, in memory zeroed by \<open>calloc\<close>; the poll time for VMs is not used.\<close>

record MemlinkCfg =
  hostInfoPollTime :: int
  vmInfoPollTime :: int
  balloonEnable :: int
  balloonTargetUsedPercent :: int
  balloonTargetMaxTotalPercent :: int
  initSemWaitTimeout :: int

definition zero_cfg :: MemlinkCfg where
  "zero_cfg = \<lparr>hostInfoPollTime = 0, vmInfoPollTime = 0, balloonEnable = 0,
     balloonTargetUsedPercent = 0, balloonTargetMaxTotalPercent = 0, initSemWaitTimeout = 0\<rparr>"

abbreviation (input) HOST_INFO_POLL_TIME_DEFAULT :: int where "HOST_INFO_POLL_TIME_DEFAULT \<equiv> 1000"
abbreviation (input) INIT_SEM_WAIT_TIMEOUT_DEFAULT :: int where "INIT_SEM_WAIT_TIMEOUT_DEFAULT \<equiv> 600000"
abbreviation (input) BALLOON_ENABLE_DEFAULT :: int where "BALLOON_ENABLE_DEFAULT \<equiv> 1"
abbreviation (input) BALLOON_TARGET_USED_PERCENT :: int where "BALLOON_TARGET_USED_PERCENT \<equiv> 130"
abbreviation (input) BALLOON_TARGET_MAX_TOTAL_PERCENT :: int where "BALLOON_TARGET_MAX_TOTAL_PERCENT \<equiv> 50"
abbreviation (input) MIN_POLL_TIME :: int where "MIN_POLL_TIME \<equiv> 100"
abbreviation (input) MAX_POLL_TIME :: int where "MAX_POLL_TIME \<equiv> 6000"
abbreviation (input) MIN_TIMEOUT :: int where "MIN_TIMEOUT \<equiv> 10000"
abbreviation (input) MAX_TIMEOUT :: int where "MAX_TIMEOUT \<equiv> 3600000"
abbreviation (input) MAX_USED_PERCENT :: int where "MAX_USED_PERCENT \<equiv> 10000"
abbreviation (input) MAX_PERCENT :: int where "MAX_PERCENT \<equiv> 100"
abbreviation (input) BALLOON_TARGET_PERCENT_MIN :: int where "BALLOON_TARGET_PERCENT_MIN \<equiv> 120"

text \<open>The range checks at the end of \<open>LoadCfgFile\<close>: a value out of range leaves the variable alone.\<close>

definition apply_cfg :: "MemlinkCfg \<Rightarrow> globals \<Rightarrow> globals" where
  "apply_cfg c g =
     (let g1 = (if hostInfoPollTime c \<ge> MIN_POLL_TIME \<and> hostInfoPollTime c \<le> MAX_POLL_TIME
                then g\<lparr>g_hostInfoPollTimeMs := hostInfoPollTime c\<rparr> else g);
          g2 = (if initSemWaitTimeout c \<ge> MIN_TIMEOUT \<and> initSemWaitTimeout c \<le> MAX_TIMEOUT
                then g1\<lparr>g_initSemWaitTimeout := initSemWaitTimeout c\<rparr> else g1);
          g3 = (if balloonEnable c \<ge> 0 \<and> balloonEnable c \<le> 1
                then g2\<lparr>g_balloonEnable := balloonEnable c\<rparr> else g2);
          g4 = (if balloonTargetUsedPercent c \<ge> BALLOON_TARGET_PERCENT_MIN \<and> balloonTargetUsedPercent c \<le> MAX_USED_PERCENT
                then g3\<lparr>g_balloonTargetUsedPercent := balloonTargetUsedPercent c\<rparr> else g3)
      in if balloonTargetMaxTotalPercent c \<ge> 0 \<and> balloonTargetMaxTotalPercent c \<le> MAX_PERCENT
         then g4\<lparr>g_balloonTargetMaxTotalPercent := balloonTargetMaxTotalPercent c\<rparr> else g4)"

definition LoadCfgFile :: "'w ext \<Rightarrow> globals \<Rightarrow> 'w \<Rightarrow> (int \<times> globals) \<times> 'w" where
  "LoadCfgFile E g w =
     (let (ok, w0) = alloc_ok E w
      in if \<not> ok then ((-1, g), w0)
         else case GET_INT_VALUE_FROM_CFG E ''host_info_poll_time'' HOST_INFO_POLL_TIME_DEFAULT w0 of
           (None, w1) \<Rightarrow> ((-1, g), w1)
         | (Some a, w1) \<Rightarrow> (case GET_INT_VALUE_FROM_CFG E ''init_sem_wait_timeout'' INIT_SEM_WAIT_TIMEOUT_DEFAULT w1 of
             (None, w2) \<Rightarrow> ((-1, g), w2)
           | (Some b, w2) \<Rightarrow> (case GET_INT_VALUE_FROM_CFG E ''balloon_enable'' BALLOON_ENABLE_DEFAULT w2 of
               (None, w3) \<Rightarrow> ((-1, g), w3)
             | (Some c, w3) \<Rightarrow> (case GET_INT_VALUE_FROM_CFG E ''balloon_target_used_percent'' BALLOON_TARGET_USED_PERCENT w3 of
                 (None, w4) \<Rightarrow> ((-1, g), w4)
               | (Some d, w4) \<Rightarrow> (case GET_INT_VALUE_FROM_CFG E ''balloon_target_max_total_percent'' BALLOON_TARGET_MAX_TOTAL_PERCENT w4 of
                   (None, w5) \<Rightarrow> ((-1, g), w5)
                 | (Some e, w5) \<Rightarrow> ((0, apply_cfg (zero_cfg\<lparr>hostInfoPollTime := a, initSemWaitTimeout := b,
                       balloonEnable := c, balloonTargetUsedPercent := d,
                       balloonTargetMaxTotalPercent := e\<rparr>) g), w5))))))"

section \<open>The settings stay in range\<close>

definition cfg_ok :: "globals \<Rightarrow> bool" where
  "cfg_ok g \<longleftrightarrow> 100 \<le> g_hostInfoPollTimeMs g \<and> g_hostInfoPollTimeMs g \<le> 6000 \<and>
     10000 \<le> g_initSemWaitTimeout g \<and> g_initSemWaitTimeout g \<le> 3600000 \<and>
     (g_balloonEnable g = 0 \<or> g_balloonEnable g = 1) \<and>
     120 \<le> g_balloonTargetUsedPercent g \<and> g_balloonTargetUsedPercent g \<le> 10000 \<and>
     0 \<le> g_balloonTargetMaxTotalPercent g \<and> g_balloonTargetMaxTotalPercent g \<le> 100"

lemma cfg_ok_init: "cfg_ok init_globals"
  by (simp add: cfg_ok_def init_globals_def)

lemma apply_cfg_ok: "cfg_ok g \<Longrightarrow> cfg_ok (apply_cfg c g)"
  by (auto simp: apply_cfg_def cfg_ok_def Let_def)

lemma LoadCfgFile_result:
  assumes "LoadCfgFile E g w = ((r, g'), w')"
  shows "r = -1 \<and> g' = g \<or> r = 0 \<and> (cfg_ok g \<longrightarrow> cfg_ok g')"
  using assms
  by (auto simp: LoadCfgFile_def Let_def split: prod.splits option.splits if_splits intro: apply_cfg_ok)

text \<open>
  C25: Settings stay in range. Whatever the file contains and however reading it fails, \<open>LoadCfgFile\<close>
  returns 0 or -1, leaves the settings alone in the second case, and keeps every setting in its
  documented range in both; the daemon starts with settings in range.
\<close>

theorem LoadCfgFile_ranges:
  assumes "LoadCfgFile E g w = ((r, g'), w')"
  shows "cfg_ok init_globals \<and> (r = 0 \<or> r = -1 \<and> g' = g) \<and> (cfg_ok g \<longrightarrow> cfg_ok g')"
  using LoadCfgFile_result [OF assms] cfg_ok_init by auto

section \<open>Reading a key\<close>

text \<open>A line of the file, with its newline; and the lines that a search for a key passes over.\<close>

definition is_line :: "string \<Rightarrow> bool" where
  "is_line l \<longleftrightarrow> l \<noteq> [] \<and> last l = NL \<and> NL \<notin> set (butlast l) \<and> NUL \<notin> set l \<and> length l < 1024"

definition skipped :: "string \<Rightarrow> string \<Rightarrow> bool" where
  "skipped key l \<longleftrightarrow> is_line l \<and> \<not> strncmp_eq l key (length key)"

lemma fgets_line:
  assumes "is_line l"
  shows "fgets 1024 (l @ r) = Some (l, r)"
proof -
  from assms have l: "l = butlast l @ [NL]" by (metis is_line_def append_butlast_last_id)
  have "0 < length l" "length l < 1024" using assms by (simp_all add: is_line_def)
  then have "length (butlast l) < 1023" unfolding length_butlast by linarith
  with assms have "take_line 1023 (butlast l @ NL # r) = (butlast l @ [NL], r)"
    by (intro take_line_newline) (simp_all add: is_line_def)
  with l have "take_line 1023 (l @ r) = (l, r)" by (metis append.assoc append_Cons append_Nil)
  moreover have "l @ r \<noteq> []" using assms by (simp add: is_line_def)
  ultimately show ?thesis by (simp add: fgets_def)
qed

lemma is_line_cstr: "is_line l \<Longrightarrow> cstr l = l"
  by (simp add: is_line_def cstr_id)

lemma cfg_lines_skip:
  assumes "memset_s_ok E" and "\<forall>l \<in> set ls. skipped key l"
  shows "cfg_lines E key (concat ls @ bs) w = cfg_lines E key bs w"
  using assms(2)
proof (induction ls)
  case Nil
  show ?case by simp
next
  case (Cons l ls)
  then have l: "is_line l" "\<not> strncmp_eq l key (length key)" by (simp_all add: skipped_def)
  have "memset_s E 1024 1024 = 0" using assms(1) by (simp add: memset_s_ok_def)
  with l fgets_line [OF l(1), of "concat ls @ bs"] is_line_cstr [OF l(1)] Cons show ?case
    by (subst cfg_lines.simps) simp
qed

lemma strstr_first: "c \<notin> set a \<Longrightarrow> strstr (a @ c # b) [c] = Some (c # b)"
  by (induction a) auto

lemma show_nat_shape:
  "\<exists>d ds. show_nat n = d # ds \<and> isdigit d \<and> list_all isdigit ds"
  "\<exists>c cs. rev (show_nat n) = c # cs \<and> isdigit c"
proof -
  have all: "list_all isdigit (show_nat n)" using show_nat_digits [of _ n] by (auto simp: list_all_iff)
  then show "\<exists>d ds. show_nat n = d # ds \<and> isdigit d \<and> list_all isdigit ds"
    by (cases "show_nat n") auto
  obtain c cs where c: "rev (show_nat n) = c # cs" by (cases "rev (show_nat n)") auto
  then have "c \<in> set (show_nat n)" by (metis list.set_intros(1) set_rev)
  with c all show "\<exists>c cs. rev (show_nat n) = c # cs \<and> isdigit c" by (auto simp: list_all_iff)
qed

lemma show_int_shape: "\<exists>c cs. rev (show_int i) = c # cs \<and> isdigit c"
proof (cases "i < 0")
  case True
  then have "rev (show_int i) = rev (show_nat (nat (- i))) @ ''-''" by (simp add: show_int_def)
  with show_nat_shape(2) [of "nat (- i)"] show ?thesis by auto
next
  case False
  then have "rev (show_int i) = rev (show_nat (nat i))" by (simp add: show_int_def)
  with show_nat_shape(2) [of "nat i"] show ?thesis by simp
qed

lemma show_int_nonempty: "show_int i \<noteq> []"
  by (simp add: show_int_def)

lemma TrimNewLine_number: "TrimNewLine (sp @ show_int i @ [NL]) = sp @ show_int i"
proof -
  obtain c cs where c: "rev (show_int i) = c # cs" "isdigit c" using show_int_shape by blast
  have "trim_back (c # xs) = c # xs" for xs
    using isdigit_props(2-4) [OF c(2)] by (cases xs) simp_all
  then have "trim_back (rev (sp @ show_int i @ [NL])) = rev (sp @ show_int i)" using c(1) by simp
  then show ?thesis unfolding TrimNewLine_def by (metis rev_rev_ident)
qed

lemma dropWhile_blanks: "\<forall>c \<in> set sp. P c \<Longrightarrow> dropWhile P (sp @ s) = dropWhile P s"
  by (induction sp) auto

lemma CheckAllDigits_number:
  assumes "\<forall>c \<in> set sp. c = CHR '' ''"
  shows "CheckAllDigits (sp @ show_int i)"
proof (cases "i < 0")
  case True
  obtain d ds where "show_nat (nat (- i)) = d # ds" "isdigit d" "list_all isdigit ds"
    using show_nat_shape(1) by blast
  with True dropWhile_blanks [OF assms] show ?thesis by (simp add: CheckAllDigits_def show_int_def)
next
  case False
  obtain d ds where d: "show_nat (nat i) = d # ds" "isdigit d" "list_all isdigit ds"
    using show_nat_shape(1) by blast
  with False dropWhile_blanks [OF assms] isdigit_props(2,5) [OF d(2)] show ?thesis
    by (simp add: CheckAllDigits_def show_int_def)
qed

lemma strtol10_skip:
  assumes "dropWhile isspace s = dropWhile isspace t" and "fst (snd (strtol10 t)) \<noteq> t"
  shows "strtol10 s = strtol10 t"
proof -
  define s1 where "s1 = dropWhile isspace t"
  define s2 where "s2 = (if s1 \<noteq> [] \<and> (hd s1 = CHR ''-'' \<or> hd s1 = CHR ''+'') then tl s1 else s1)"
  have "takeWhile isdigit s2 \<noteq> []"
    using assms(2) unfolding strtol10_def Let_def s1_def [symmetric] s2_def [symmetric] by (rule contrapos_nn) simp
  then show ?thesis
    unfolding strtol10_def Let_def assms(1) s1_def [symmetric] s2_def [symmetric] by (simp only: if_False)
qed

lemma strtol10_blanks:
  assumes "\<forall>c \<in> set sp. c = CHR '' ''" and "in_s64 i"
  shows "strtol10 (sp @ show_int i) = (i, [], False)"
proof -
  have "isspace (CHR '' '')" by (simp add: isspace_def byte_def)
  then have "\<forall>c \<in> set sp. isspace c" using assms(1) by metis
  note d = dropWhile_blanks [OF this, of "show_int i"]
  have n: "strtol10 (show_int i) = (i, [], False)" using assms(2) by (rule strtol10_show_int)
  then have "fst (snd (strtol10 (show_int i))) \<noteq> show_int i" using show_int_nonempty [of i] by simp
  from strtol10_skip [OF d this] n show ?thesis by simp
qed

lemma value_of_line_number:
  assumes "CHR ''='' \<notin> set k" and "\<forall>c \<in> set sp. c = CHR '' ''" and "in_s64 i" and "get_errno E w \<noteq> ERANGE"
  shows "value_of_line E (k @ ''='' @ sp @ show_int i @ [NL]) w = (Some (wrap32 i), w)"
  using strstr_first [OF assms(1), of "sp @ show_int i @ [NL]"] CheckAllDigits_number [OF assms(2), of i]
    strtol10_blanks [OF assms(2,3)] assms(4)
  by (simp add: value_of_line_def TrimNewLine_number)

text \<open>The line of a key: the key, blanks, an equals sign, blanks and a number.\<close>

definition key_line :: "string \<Rightarrow> string \<Rightarrow> string \<Rightarrow> int \<Rightarrow> string" where
  "key_line key sp sp' i = key @ sp @ ''='' @ sp' @ show_int i @ [NL]"

lemma cfg_lines_key:
  assumes "is_line (key_line key sp sp' i)" and "CHR ''='' \<notin> set key"
    and "\<forall>c \<in> set sp. c = CHR '' ''" and "\<forall>c \<in> set sp'. c = CHR '' ''"
    and "in_s64 i" and "get_errno E w \<noteq> ERANGE"
  shows "cfg_lines E key (key_line key sp sp' i @ r) w = (wrap32 i, w)"
proof -
  have "CHR ''='' \<notin> set (key @ sp)" using assms(2,3) by auto
  note v = value_of_line_number [OF this assms(4-6), unfolded append_assoc, folded key_line_def]
  have "strncmp_eq (key_line key sp sp' i) key (length key)" by (simp add: strncmp_eq_def key_line_def)
  with v fgets_line [OF assms(1), of r] is_line_cstr [OF assms(1)] show ?thesis
    by (subst cfg_lines.simps) simp
qed

text \<open>
  C26: Reading a key. In a file in which a line \<open>key = i\<close> comes after lines that do not start with the
  key, \<open>GetIntegerValueFromCfg\<close> returns the number: exactly for an \<open>int\<close>, and reduced modulo
  \<open>2 ^ 32\<close> for a larger \<open>long\<close>. \<open>errno\<close> must not hold a stale \<open>ERANGE\<close>.
\<close>

theorem GetIntegerValueFromCfg_reads:
  assumes "memset_s_ok E" and "read_file E MEMLINKD_CONF_FILE w = (Some (concat ls @ key_line key sp sp' i @ rest), w1)"
    and "\<forall>l \<in> set ls. skipped key l" and "is_line (key_line key sp sp' i)" and "CHR ''='' \<notin> set key"
    and "\<forall>c \<in> set (sp @ sp'). c = CHR '' ''" and "in_s64 i" and "get_errno E w1 \<noteq> ERANGE"
  shows "GetIntegerValueFromCfg E key w = (wrap32 i, w1) \<and> (in_s32 i \<longrightarrow> wrap32 i = i)"
proof -
  have "cfg_lines E key (concat ls @ key_line key sp sp' i @ rest) w1 = (wrap32 i, w1)"
    unfolding cfg_lines_skip [OF assms(1,3)] using assms(4-8) by (intro cfg_lines_key) auto
  with assms(2) wrap32_id show ?thesis by (simp add: GetIntegerValueFromCfg_def)
qed

lemma GetIntegerValueFromCfg_absent:
  assumes "memset_s_ok E" and "read_file E MEMLINKD_CONF_FILE w = (Some (concat ls), w1)"
    and "\<forall>l \<in> set ls. skipped key l"
  shows "GetIntegerValueFromCfg E key w = (-1, w1)"
proof -
  have "cfg_lines E key [] w1 = (-1, w1)" by (subst cfg_lines.simps) (simp add: fgets_def)
  with cfg_lines_skip [OF assms(1,3), of "[]" w1] assms(2) show ?thesis
    by (simp add: GetIntegerValueFromCfg_def)
qed

text \<open>
  C27: Missing keys. When no line of the file starts with one of the five keys, \<open>LoadCfgFile\<close> succeeds
  with the built-in settings, whatever the settings were before.
\<close>

theorem LoadCfgFile_defaults:
  assumes "memset_s_ok E" and "alloc_ok E w = (True, w0)"
    and "\<And>w. read_file E MEMLINKD_CONF_FILE w = (Some (concat ls), w)"
    and "\<forall>l \<in> set ls. skipped ''host_info_poll_time'' l \<and> skipped ''init_sem_wait_timeout'' l \<and>
      skipped ''balloon_enable'' l \<and> skipped ''balloon_target_used_percent'' l \<and>
      skipped ''balloon_target_max_total_percent'' l"
  shows "LoadCfgFile E g w = ((0, init_globals), w0)"
proof -
  have get: "GET_INT_VALUE_FROM_CFG E key dflt w = (Some dflt, w)" if "\<forall>l \<in> set ls. skipped key l" for key dflt w
    using GetIntegerValueFromCfg_absent [OF assms(1,3) that] by (simp add: GET_INT_VALUE_FROM_CFG_def)
  have "apply_cfg (zero_cfg\<lparr>hostInfoPollTime := 1000, initSemWaitTimeout := 600000, balloonEnable := 1,
      balloonTargetUsedPercent := 130, balloonTargetMaxTotalPercent := 50\<rparr>) g = init_globals"
    by (cases g) (simp add: apply_cfg_def zero_cfg_def init_globals_def)
  with assms(2,4) get show ?thesis by (simp add: LoadCfgFile_def)
qed

section \<open>Rewriting a value\<close>

text \<open>
  What is relied on: writing appends to the file, and \<open>sscanf_s\<close> splits a line \<open>key=number\<close>.
\<close>

definition writes_ok :: "'w ext \<Rightarrow> int \<Rightarrow> ('w \<Rightarrow> string) \<Rightarrow> bool" where
  "writes_ok E fp out \<longleftrightarrow>
     (\<forall>t w. 0 \<le> fst (fputs E fp t w) \<and> out (snd (fputs E fp t w)) = out w @ t) \<and>
     (\<forall>t w. 0 \<le> fst (fprintf E fp t w) \<and> out (snd (fprintf E fp t w)) = out w @ t)"

definition scan_ok :: "'w ext \<Rightarrow> bool" where
  "scan_ok E \<longleftrightarrow>
     (\<forall>k v old. k \<noteq> [] \<and> CHR ''='' \<notin> set k \<and> length k < 1024 \<and> in_s32 v \<longrightarrow>
        sscanf_s_kv E (k @ ''='' @ show_int v @ [NL]) 1024 old = (2, k, v))"

text \<open>The lines that are copied as they are: comments, empty lines, lines without the key.\<close>

definition copied :: "string \<Rightarrow> string \<Rightarrow> bool" where
  "copied key l \<longleftrightarrow> is_line l \<and> (hd l = CHR ''#'' \<or> hd l = NL \<or> strstr l key = None)"

definition proper_key :: "string \<Rightarrow> bool" where
  "proper_key key \<longleftrightarrow> key \<noteq> [] \<and> CHR ''='' \<notin> set key \<and> hd key \<noteq> CHR ''#'' \<and> hd key \<noteq> NL"

lemma copied_skipped:
  assumes "copied key l" and "proper_key key"
  shows "skipped key l"
proof -
  have "\<not> strncmp_eq l key (length key)"
  proof
    assume "strncmp_eq l key (length key)"
    then have k: "l = [] @ key @ drop (length key) l"
      by (simp add: strncmp_eq_def) (metis append_take_drop_id)
    then have "strstr l key \<noteq> None" using strstr_iff by blast
    moreover have "hd l = hd key" using k assms(2) by (metis append_Nil hd_append proper_key_def)
    ultimately show False using assms by (auto simp: copied_def proper_key_def)
  qed
  with assms(1) show ?thesis by (simp add: skipped_def copied_def)
qed

lemma copy_lines_copied:
  assumes "memset_s_ok E" and "writes_ok E fp out" and "\<forall>l \<in> set ls. copied key l"
  shows "\<exists>w'. copy_lines E fp key v tmp (concat ls @ bs) w = copy_lines E fp key v tmp bs w' \<and>
    out w' = out w @ concat ls"
  using assms(3)
proof (induction ls arbitrary: w)
  case Nil
  show ?case by auto
next
  case (Cons l ls)
  then have l: "is_line l" "hd l = CHR ''#'' \<or> hd l = NL \<or> strstr l key = None" "l \<noteq> []"
    by (simp_all add: copied_def is_line_def)
  obtain r w1 where p: "fputs E fp l w = (r, w1)" by fastforce
  then have r: "0 \<le> r" "out w1 = out w @ l" using assms(2) unfolding writes_ok_def by (metis fst_conv, metis snd_conv)
  have "memset_s E 1024 1024 = 0" using assms(1) by (simp add: memset_s_ok_def)
  then have "copy_lines E fp key v tmp (concat (l # ls) @ bs) w = copy_lines E fp key v tmp (concat ls @ bs) w1"
    using l p r(1) fgets_line [OF l(1), of "concat ls @ bs"] is_line_cstr [OF l(1)]
    by (subst copy_lines.simps) auto
  moreover obtain w' where "copy_lines E fp key v tmp (concat ls @ bs) w1 = copy_lines E fp key v tmp bs w'"
    "out w' = out w1 @ concat ls" using Cons.IH Cons.prems by fastforce
  ultimately show ?case using r(2) by auto
qed

lemma copy_lines_key:
  assumes "memset_s_ok E" and "writes_ok E fp out" and "scan_ok E" and "proper_key key" and "in_s32 old"
    and "is_line (key_line key [] [] old)"
  shows "\<exists>w'. copy_lines E fp key v tmp (key_line key [] [] old @ bs) w = copy_lines E fp key v (key, v) bs w' \<and>
    out w' = out w @ key_line key [] [] v"
proof -
  let ?l = "key_line key [] [] old"
  have len: "length key < 1024" using assms(6) by (simp add: is_line_def key_line_def)
  have scan: "sscanf_s_kv E ?l 1024 tmp = (2, key, old)"
    using assms(3) [unfolded scan_ok_def, rule_format, of key old tmp] assms(4,5) len
    by (simp add: proper_key_def key_line_def)
  have "strstr ?l key \<noteq> None" unfolding strstr_iff by (rule exI [of _ "[]"]) (simp add: key_line_def)
  then obtain y where y: "strstr ?l key = Some y" by blast
  have hd: "?l \<noteq> []" "hd ?l \<noteq> CHR ''#''" "hd ?l \<noteq> NL"
    using assms(4) by (simp_all add: key_line_def proper_key_def)
  obtain r w1 where p: "fprintf E fp (key_line key [] [] v) w = (r, w1)" by fastforce
  then have r: "0 \<le> r" "out w1 = out w @ key_line key [] [] v"
    using assms(2) unfolding writes_ok_def by (metis fst_conv, metis snd_conv)
  have "memset_s E 1024 1024 = 0" using assms(1) by (simp add: memset_s_ok_def)
  moreover have "fprintf E fp (key @ ''='' @ show_int v @ [NL]) w = (r, w1)" using p by (simp add: key_line_def)
  ultimately have "copy_lines E fp key v tmp (?l @ bs) w = copy_lines E fp key v (key, v) bs w1"
    using y hd scan r(1) fgets_line [OF assms(6), of bs] is_line_cstr [OF assms(6)]
    by (subst copy_lines.simps) (simp add: Let_def)
  with r(2) show ?thesis by blast
qed


section \<open>Instances\<close>

definition sample_lines :: "string list" where
  "sample_lines = [''# poll'' @ [NL], [NL], ''other=1'' @ [NL]]"

text \<open>
  A file system with one configuration file; what is written is kept in the world, a character as
  the number of its byte.
\<close>

definition file_ext :: "string \<Rightarrow> ref_world ext" where
  "file_ext bs = ref_ext\<lparr>
     read_file := (\<lambda>_ w. (Some bs, w)),
     fputs := (\<lambda>_ t w. (0, (fst w, snd w @ map (\<lambda>c. (None, of_nat (of_char c))) t))),
     fprintf := (\<lambda>_ t w. (int (length t), (fst w, snd w @ map (\<lambda>c. (None, of_nat (of_char c))) t))),
     sscanf_s_kv := (\<lambda>line n old.
        let k = takeWhile (\<lambda>c. c \<noteq> CHR ''='') line
        in (2, k, fst (strtol10 (takeWhile (\<lambda>c. c \<noteq> NL) (drop (Suc (length k)) line)))))\<rparr>"

definition written :: "ref_world \<Rightarrow> string" where
  "written w = map (\<lambda>p. char_of (unat (snd p))) (snd w)"

lemma file_ext_memset: "memset_s_ok (file_ext bs)"
  using securec_okD(3) [OF ref_ext_securec] by (simp add: file_ext_def memset_s_ok_def)

lemma char_word: "char_of (unat (of_nat (of_char c) :: u64)) = c"
proof -
  have "(of_char c :: nat) < 256" by simp
  then have "of_char c mod (18446744073709551616 :: nat) = of_char c" by (intro mod_less) linarith
  then show ?thesis by (simp add: unat_of_nat)
qed

lemma file_ext_writes: "writes_ok (file_ext bs) fp written"
  by (simp add: writes_ok_def file_ext_def written_def char_word comp_def)

lemma show_int_chars: "c \<in> set (show_int i) \<Longrightarrow> c \<noteq> NL \<and> c \<noteq> NUL"
  using show_nat_digits [of c] isdigit_props(1,3) [of c]
  by (auto simp: show_int_def NL_def NUL_def split: if_splits)

lemma file_ext_scan: "scan_ok (file_ext bs)"
proof -
  have "sscanf_s_kv (file_ext bs) (k @ ''='' @ show_int v @ [NL]) 1024 old = (2, k, v)"
    if "CHR ''='' \<notin> set k" "in_s32 v" for k v old
  proof -
    have t: "takeWhile (\<lambda>c. c \<noteq> CHR ''='') (k @ CHR ''='' # show_int v @ [NL]) = k"
      using that(1) by (simp add: takeWhile_append)
    have n: "takeWhile (\<lambda>c. c \<noteq> NL) (show_int v @ [NL]) = show_int v"
      using show_int_chars [of _ v] by (simp add: takeWhile_append2)
    have "in_s64 v" using that(2) by (simp add: in_s32_def in_s64_def)
    from strtol10_show_int [OF this] t n show ?thesis by (simp add: file_ext_def)
  qed
  then show ?thesis by (simp add: scan_ok_def)
qed

lemma sample_copied: "\<forall>l \<in> set sample_lines. copied ''balloon_enable'' l"
  by (simp add: sample_lines_def copied_def is_line_def NL_def NUL_def)

lemma sample_proper: "proper_key ''balloon_enable''"
  by (simp add: proper_key_def NL_def)

lemma sample_line:
  assumes "in_s32 i"
  shows "is_line (key_line ''balloon_enable'' [] [] i)" and "is_line (key_line ''balloon_enable'' '' '' '' '' i)"
proof -
  have "length (show_int i) \<le> 11" using length_show_int [OF assms] .
  moreover have "NL \<notin> set (show_int i)" "NUL \<notin> set (show_int i)"
    using show_int_chars by blast+
  ultimately show "is_line (key_line ''balloon_enable'' [] [] i)"
    and "is_line (key_line ''balloon_enable'' '' '' '' '' i)"
    by (auto simp: is_line_def key_line_def butlast_append NL_def NUL_def)
qed


theorem GetIntegerValueFromCfg_reads_witness:
  "GetIntegerValueFromCfg (file_ext (concat sample_lines @ key_line ''balloon_enable'' '' '' '' '' 1 @ []))
     ''balloon_enable'' (0, []) = (1, (0, []))"
proof -
  have r: "read_file (file_ext bs) MEMLINKD_CONF_FILE (0, []) = (Some bs, (0, []))" for bs
    by (simp add: file_ext_def)
  have sk: "\<forall>l \<in> set sample_lines. skipped ''balloon_enable'' l"
    using sample_copied copied_skipped [OF _ sample_proper] by blast
  have "is_line (key_line ''balloon_enable'' '' '' '' '' 1)" by (rule sample_line) (simp add: in_s32_def)
  moreover have "get_errno (file_ext bs) (0, []) \<noteq> ERANGE" for bs
    by (simp add: file_ext_def ref_ext_def ERANGE_def)
  moreover have "wrap32 1 = 1" by (simp add: wrap32_id in_s32_def)
  ultimately show ?thesis
    using GetIntegerValueFromCfg_reads [OF file_ext_memset r sk, of "'' ''" "'' ''" 1 "[]"]
    by (simp add: in_s64_def)
qed

theorem LoadCfgFile_defaults_witness:
  "LoadCfgFile (file_ext (concat sample_lines)) (init_globals\<lparr>g_balloonEnable := 0\<rparr>) (0, []) =
     ((0, init_globals), (0, []))"
proof (rule LoadCfgFile_defaults [OF file_ext_memset])
  show "alloc_ok (file_ext (concat sample_lines)) (0, []) = (True, (0, []))"
    by (simp add: file_ext_def ref_ext_def)
  show "read_file (file_ext (concat sample_lines)) MEMLINKD_CONF_FILE w = (Some (concat sample_lines), w)" for w
    by (simp add: file_ext_def)
  show "\<forall>l \<in> set sample_lines. skipped ''host_info_poll_time'' l \<and> skipped ''init_sem_wait_timeout'' l \<and>
      skipped ''balloon_enable'' l \<and> skipped ''balloon_target_used_percent'' l \<and>
      skipped ''balloon_target_max_total_percent'' l"
    by (simp add: sample_lines_def skipped_def is_line_def strncmp_eq_def NL_def NUL_def)
qed

theorem LoadCfgFile_ranges_witness:
  "LoadCfgFile ref_ext init_globals (0, []) = ((-1, init_globals), (0, [])) \<and> cfg_ok init_globals"
proof -
  have "LoadCfgFile ref_ext init_globals (0, []) = ((-1, init_globals), (0, []))"
    by (simp add: LoadCfgFile_def GET_INT_VALUE_FROM_CFG_def GetIntegerValueFromCfg_def ref_ext_def)
  with LoadCfgFile_ranges [OF this] show ?thesis by simp
qed

end
