(* ===== verification/Log.thy ===== *)
theory Log
  imports Environment
begin

text \<open>
  src/log.c: messages to the system log. The other theories leave their messages out, since a
  message changes nothing but the log; here the function that sends one is modelled. The formatted
  text of a message stands for its format and arguments.
\<close>

abbreviation (input) LOG_BUF_SIZE :: nat where "LOG_BUF_SIZE \<equiv> 256"
abbreviation (input) END_LOCATION :: nat where "END_LOCATION \<equiv> 2"

text \<open>The zeroed buffer after \<open>vsnprintf_s\<close> has put a string at its start.\<close>

definition fill_buf :: "string \<Rightarrow> string" where
  "fill_buf t = take LOG_BUF_SIZE (t @ replicate LOG_BUF_SIZE NUL)"

definition Log :: "'w ext \<Rightarrow> int \<Rightarrow> string \<Rightarrow> string \<Rightarrow> 'w \<Rightarrow> 'w" where
  "Log E level funcName msg w =
     (let (rc, t) = vsnprintf_s E LOG_BUF_SIZE (LOG_BUF_SIZE - 1) msg;
          w1 = (if rc = -1 then syslog E level ''Fail to print string to buf'' w else w);
          buf = (fill_buf t)[LOG_BUF_SIZE - END_LOCATION := NL, LOG_BUF_SIZE - 1 := NUL]
      in syslog E level (funcName @ '': '' @ cstr buf) w1)"

definition LogInit :: "'w ext \<Rightarrow> 'w \<Rightarrow> 'w" where
  "LogInit E w = openlog E ''memlinkd'' w"

definition LogExit :: "'w ext \<Rightarrow> 'w \<Rightarrow> 'w" where
  "LogExit E w = closelog E w"

text \<open>
  \<open>vsnprintf_s\<close> with a count below the size: the text and its length when it fits, and otherwise -1
  and the part that fits.
\<close>

definition vsnprintf_s_ok :: "'w ext \<Rightarrow> bool" where
  "vsnprintf_s_ok E \<longleftrightarrow>
     (\<forall>m n t. n < m \<longrightarrow>
        vsnprintf_s E m n t = (if length t \<le> n then (int (length t), t) else (-1, take n t)))"

lemma cstr_append_NUL: "NUL \<notin> set t \<Longrightarrow> cstr (t @ NUL # r) = t"
  by (induction t) (auto simp: cstr_def)

lemma cstr_fill:
  assumes "NUL \<notin> set t" and "length t \<le> 255"
  shows "cstr ((fill_buf t)[254 := NL, 255 := NUL]) = (if length t \<le> 253 then t else take 254 t @ [NL])"
proof -
  define b where "b = (fill_buf t)[254 := NL, 255 := NUL]"
  have len: "length b = 256" by (simp add: b_def fill_buf_def)
  have nth: "b ! i = (if i = 255 then NUL else if i = 254 then NL else if i < length t then t ! i else NUL)"
    if "i < 256" for i
    using that assms(2) by (simp add: b_def fill_buf_def nth_append nth_list_update)
  have no: "t ! i \<noteq> NUL" if "i < length t" for i using assms(1) that nth_mem by metis
  show ?thesis
  proof (cases "length t \<le> 253")
    case True
    have "b = t @ NUL # drop (Suc (length t)) b"
      by (rule nth_equalityI) (use True len nth in \<open>auto simp: nth_append nth_Cons'\<close>)
    then have "cstr b = cstr (t @ NUL # drop (Suc (length t)) b)" by simp
    also have "\<dots> = t" by (rule cstr_append_NUL [OF assms(1)])
    finally show ?thesis using True by (simp add: b_def)
  next
    case False
    have "b = (take 254 t @ [NL]) @ [NUL]"
      by (rule nth_equalityI) (use False len nth in \<open>auto simp: nth_append nth_Cons'\<close>)
    moreover have "NUL \<notin> set (take 254 t @ [NL])"
      using assms(1) by (auto simp: NUL_def NL_def dest: in_set_takeD)
    ultimately have "cstr b = take 254 t @ [NL]" using cstr_append_NUL by metis
    then show ?thesis using False by (simp add: b_def)
  qed
qed

text \<open>
  C40: A message. A text of up to 253 characters is logged as it is after the name of the function;
  of a longer one the first 254 characters and a line break are logged, and beyond 255 characters
  an error message comes first. The buffer is never overrun and always terminated.
\<close>

theorem Log_message:
  assumes "vsnprintf_s_ok E" and "NUL \<notin> set msg"
  shows "Log E level f msg w =
    (if length msg \<le> 253 then syslog E level (f @ '': '' @ msg) w
     else syslog E level (f @ '': '' @ take 254 msg @ [NL])
       (if length msg \<le> 255 then w else syslog E level ''Fail to print string to buf'' w))"
proof -
  have "NUL \<notin> set (take 255 msg)" using assms(2) by (auto dest: in_set_takeD)
  from cstr_fill [OF this] cstr_fill [OF assms(2)] show ?thesis
    using assms(1) by (auto simp: Log_def vsnprintf_s_ok_def)
qed

theorem Log_message_witness:
  "Log ref_ext 6 ''main'' ''ready'' (0, []) = syslog ref_ext 6 ''main: ready'' (0, [])"
proof -
  have "vsnprintf_s_ok ref_ext" by (simp add: vsnprintf_s_ok_def ref_ext_def)
  from Log_message [OF this, of "''ready''" 6 "''main''"] show ?thesis by (simp add: NUL_def)
qed

end
