(* ===== verification/Daemon.thy ===== *)
theory Daemon
  imports Core Libvirt_Events Config Log
begin

text \<open>
  src/main.c and the threads. The daemon has three threads: the main thread, which starts the others,
  refreshes the VM list after a reconnection and waits for a signal; the event thread
  (\<open>DomainEventProcessThread\<close>); and the balloon thread (\<open>BalloonVmMemThread\<close>). They share the state
  record and synchronise through the list mutex.

  A thread is a program counter and a function that executes the code from one counter to the
  next. A step is a critical section of the list mutex, or the code between two of them that
  touches the shared state at most once; the one exception that the code leaves unprotected, the
  connection handle, is given two steps where it is closed. The threads' steps interleave
  arbitrarily (\<open>daemon_step\<close>), with signals in between.
\<close>

section \<open>The sequential parts of main.c\<close>

definition MEMLINKD_PID_FILE :: string where
  "MEMLINKD_PID_FILE = ''/var/run/memlinkd.pid''"

text \<open>The mode mask is octal 027.\<close>

definition Daemonize :: "'w ext \<Rightarrow> 'w \<Rightarrow> int \<times> 'w" where
  "Daemonize E w =
     (let (r, w1) = daemon_call E w
      in if r < 0 then (-2, w1)
         else
           let w2 = umask_call E 23 w1;
               (fd, w3) = open_creat E MEMLINKD_PID_FILE w2
           in if fd = -1 then (-2, w3)
              else
                let (r2, w4) = lockf_tlock E fd w3
                in if r2 < 0 then (-2, close_fd E fd w4)
                   else
                     let (r3, w5) = ftruncate_0 E fd w4
                     in if r3 < 0 then (-1, close_fd E fd w5)
                        else
                          let (len, buf) = snprintf_s E 64 63 (show_int (getpid E w5))
                          in if len \<le> 0 then (-1, close_fd E fd w5)
                             else
                               let (r4, w6) = write_fd E fd (take (nat len) buf) w5
                               in if r4 < 0 then (-1, close_fd E fd w6) else (fd, w6))"

definition SignalHandler :: "int \<Rightarrow> 'w mstate \<Rightarrow> 'w mstate" where
  "SignalHandler signalHandle s = s\<lparr>g_stopMemlinkd := signalHandle\<rparr>"

abbreviation (input) SIGHUP :: int where "SIGHUP \<equiv> 1"
abbreviation (input) SIGINT :: int where "SIGINT \<equiv> 2"
abbreviation (input) SIGTERM :: int where "SIGTERM \<equiv> 15"

text \<open>A \<open>struct sigaction\<close> has 152 bytes.\<close>

definition DaemonSetupSignals :: "'w ext \<Rightarrow> 'w \<Rightarrow> int \<times> 'w" where
  "DaemonSetupSignals E w =
     (if memset_s E 152 152 \<noteq> 0 then (-1, w)
      else (0, sigaction_handler E SIGTERM (sigaction_handler E SIGHUP (sigaction_handler E SIGINT w))))"

text \<open>\<open>ATOMIC_XCHG(&g_libvirtChange, 0)\<close>.\<close>

definition xchg_change :: "'w mstate \<Rightarrow> int \<times> 'w mstate" where
  "xchg_change s = (g_libvirtChange s, s\<lparr>g_libvirtChange := 0\<rparr>)"

section \<open>Threads\<close>

text \<open>
  Program counters. The main thread: before the first statement; about to create the event thread;
  waiting for the semaphore until a deadline; about to create the balloon thread; at the test of
  the loop, the exchange, the update and the sleep; at the labels of the way out; returned.
\<close>

datatype mpc = MStart | MEvent | MWait "int \<times> int" | MBalloon | MLoop | MXchg | MUpdate | MSleep
  | MBack | MFree | MEnd | MDone int

text \<open>
  The event thread: not created; before registering the event loop; at the test of the outer loop;
  in \<open>ConnectLibvirt\<close> (at its first test, between the close and the reset of the handle, at its
  loop); before the registration; before the rebuild; holding \<open>requestLock\<close> (before the listing,
  and adding the listed ids); before the notification; at the test of the inner loop; in libvirt's
  event loop; running callbacks; at the clean-up; returned; or it has called \<open>exit\<close>.
\<close>

datatype epc = EvOff | EvInit | EvTop | EvCheck | EvClosed | EvOpen | EvRegister | EvRebuild | EvList
  | EvCollect "int list" | EvNotify | EvAlive | EvPoll | EvRun int "vir_event list" | EvCleanup
  | EvEnd | EvExit

datatype bpc = BlOff | BlTop | BlStats | BlSection | BlSleep | BlEnd

text \<open>
  The process: the shared state, the counters, the event thread's \<open>initFlag\<close>, the main thread's
  variables \<open>fd\<close> and \<open>ret\<close> and its signal mask, and whether the handlers are installed.
\<close>

record 'w dstate =
  mem :: "'w mstate"
  main_at :: mpc
  event_at :: epc
  balloon_at :: bpc
  init_flag :: bool
  main_fd :: int
  main_ret :: int
  main_mask :: sigmask
  handlers :: bool

definition init_dstate :: "'w \<Rightarrow> 'w dstate" where
  "init_dstate w = \<lparr>mem = init_mstate w, main_at = MStart, event_at = EvOff, balloon_at = BlOff,
     init_flag = False, main_fd = -1, main_ret = 1, main_mask = (\<lambda>_. False), handlers = False\<rparr>"

subsection \<open>The main thread\<close>

text \<open>From the entry to the call of \<open>CoreInit\<close>.\<close>

definition main_start :: "'w ext \<Rightarrow> 'w dstate \<Rightarrow> 'w dstate" where
  "main_start E d =
     (let s = mem d; (fd, w1) = Daemonize E (LogInit E (world s)); d1 = d\<lparr>main_fd := fd\<rparr>
      in if fd = -1 then d1\<lparr>mem := s\<lparr>world := w1\<rparr>, main_at := MEnd\<rparr>
         else if fd < 0 then d1\<lparr>mem := s\<lparr>world := LogExit E w1\<rparr>, main_at := MDone 1\<rparr>
         else
           let (r, w2) = DaemonSetupSignals E w1
           in if r < 0 then d1\<lparr>mem := s\<lparr>world := w2\<rparr>, main_at := MEnd\<rparr>
              else
                let ((r2, g), w3) = LoadCfgFile E (cfg s) w2; d2 = d1\<lparr>mem := s\<lparr>cfg := g, world := w3\<rparr>, handlers := True\<rparr>
                in d2\<lparr>main_at := (if r2 < 0 then MEnd else MEvent)\<rparr>)"

text \<open>\<open>CreateEventThread\<close> up to the wait, the deadline of the wait, and what follows it.\<close>

definition create_event :: "'w ext \<Rightarrow> sigmask \<Rightarrow> 'w \<Rightarrow> (int \<times> sigmask) \<times> 'w" where
  "create_event E blocked w =
     (if memset_s E 32 32 \<noteq> 0 then ((-1, blocked), w)
      else
        let (rc, w1) = SemInit E 0 w
        in if rc \<noteq> 0 then ((-1, blocked), w1)
           else
             let ((tr, blocked1), w2) =
                   ThreadCreate E Run_DomainEventProcessThread MEMLINK_THREAD_DETACHED blocked w1
             in if tr < 0 then ((-1, blocked1), snd (SemDestroy E w2)) else ((0, blocked1), w2))"

definition wait_deadline :: "'w ext \<Rightarrow> int \<Rightarrow> 'w \<Rightarrow> ((int \<times> int) option \<times> 'w) option" where
  "wait_deadline E ms w =
     (let ((r, tv_sec, tv_usec), w1) = gettimeofday E w
      in if r = -1 then Some (None, w1)
         else do { ts \<leftarrow> sem_deadline tv_sec tv_usec ms; Some (Some ts, w1) })"

definition wait_over :: "'w ext \<Rightarrow> bool \<Rightarrow> 'w mstate \<Rightarrow> 'w mstate" where
  "wait_over E timeout s =
     (let s1 = s\<lparr>world := snd (SemDestroy E (world s))\<rparr>
      in if timeout then s1\<lparr>g_stopMemlinkd := 1\<rparr> else s1)"

fun main_next :: "'w ext \<Rightarrow> mpc \<Rightarrow> 'w dstate \<Rightarrow> 'w dstate option" where
  "main_next E MStart d = Some (main_start E d)"
| "main_next E MEvent d =
     (let s = mem d; ((r, blocked), w1) = create_event E (main_mask d) (world s)
      in if r < 0 then Some (d\<lparr>mem := s\<lparr>world := w1\<rparr>, main_mask := blocked, main_at := MBack\<rparr>)
         else do {
           (ts, w2) \<leftarrow> wait_deadline E (g_initSemWaitTimeout (cfg s)) w1;
           let d1 = d\<lparr>mem := s\<lparr>world := w2\<rparr>, main_mask := blocked, event_at := EvInit\<rparr>;
           Some (case ts of
                   None \<Rightarrow> d1\<lparr>mem := wait_over E True (mem d1), main_at := MBack\<rparr>
                 | Some t \<Rightarrow> d1\<lparr>main_at := MWait t\<rparr>) })"
| "main_next E (MWait ts) d =
     (let s = mem d; (rc, w1) = sem_timedwait E ts (world s); s1 = s\<lparr>world := w1\<rparr>
      in if rc = -1 \<and> get_errno E w1 = EINTR then Some (d\<lparr>mem := s1\<rparr>)
         else if rc = -1 \<and> get_errno E w1 = ETIMEDOUT
         then Some (d\<lparr>mem := wait_over E True s1, main_at := MBack\<rparr>)
         else Some (d\<lparr>mem := wait_over E False s1, main_at := MBalloon\<rparr>))"
| "main_next E MBalloon d =
     (let s = mem d
      in if g_balloonEnable (cfg s) = 1 then
           let ((r, blocked), w1) =
                 ThreadCreate E Run_BalloonVmMemThread MEMLINK_THREAD_DETACHED (main_mask d) (world s);
               d1 = d\<lparr>mem := s\<lparr>world := w1\<rparr>, main_mask := blocked\<rparr>
           in Some (if r < 0 then d1\<lparr>main_at := MBack\<rparr> else d1\<lparr>balloon_at := BlTop, main_at := MLoop\<rparr>)
         else Some (d\<lparr>main_at := MLoop\<rparr>))"
| "main_next E MLoop d =
     Some (if g_stopMemlinkd (mem d) = 0 then d\<lparr>main_at := MXchg\<rparr> else d\<lparr>main_ret := 0, main_at := MBack\<rparr>)"
| "main_next E MXchg d =
     (let (old, s1) = xchg_change (mem d)
      in Some (d\<lparr>mem := s1, main_at := (if old \<noteq> 0 then MUpdate else MSleep)\<rparr>))"
| "main_next E MUpdate d = do { s1 \<leftarrow> UpdateAllVmInfo E (mem d); Some (d\<lparr>mem := s1, main_at := MSleep\<rparr>) }"
| "main_next E MSleep d =
     (let s = mem d
      in do { w \<leftarrow> SleepApprox E (g_hostInfoPollTimeMs (cfg s) sdiv 1000) (world s);
              Some (d\<lparr>mem := s\<lparr>world := w\<rparr>, main_at := MLoop\<rparr>) })"
| "main_next E MBack d =
     (let s = mem d
      in do { s1 \<leftarrow> (if g_balloonEnable (cfg s) = 1 then BalloonBackVmMem E s else Some s);
              Some (d\<lparr>mem := s1, main_at := MFree\<rparr>) })"
| "main_next E MFree d = do { s1 \<leftarrow> FreeAllVM E (mem d); Some (d\<lparr>mem := s1, main_at := MEnd\<rparr>) }"
| "main_next E MEnd d =
     (let s = mem d;
          w1 = unlink E MEMLINKD_PID_FILE (LogExit E (world s));
          w2 = (if main_fd d \<noteq> -1 then close_fd E (main_fd d) w1 else w1)
      in Some (d\<lparr>mem := s\<lparr>g_stopMemlinkd := 1, world := w2\<rparr>, main_at := MDone (main_ret d)\<rparr>))"
| "main_next E (MDone r) d = Some d"

subsection \<open>The event thread\<close>

text \<open>\<open>CollectAddCurrentVMs\<close> up to its loop: the ids that the loop adds.\<close>

definition collect_ids :: "'w ext \<Rightarrow> 'w mstate \<Rightarrow> (int list \<times> 'w mstate) option" where
  "collect_ids E s =
     (case g_libvirtConn s of
       None \<Rightarrow> Some ([], s)
     | Some c \<Rightarrow>
        (let (domNum, w1) = virConnectNumOfDomains E c (world s)
         in if domNum < 0 \<or> domNum = 0 then Some ([], s\<lparr>world := w1\<rparr>)
            else
              let n = nat domNum; (ok, w2) = alloc_ok E w1
              in if \<not> ok then Some ([], s\<lparr>world := w2\<rparr>)
                 else if memset_s E (4 * n) (4 * n) \<noteq> 0 then Some ([], s\<lparr>world := w2\<rparr>)
                 else
                   let ((ret, ids), w3) = virConnectListDomains E c domNum w2;
                       domids = take n (ids @ replicate n 0)
                   in if ret < 0 then Some ([], s\<lparr>world := w3\<rparr>)
                      else if n < nat ret then None
                      else Some (take (nat ret) domids, s\<lparr>world := w3\<rparr>)))"

fun event_next :: "'w ext \<Rightarrow> epc \<Rightarrow> bool \<Rightarrow> 'w mstate \<Rightarrow> (epc \<times> bool \<times> 'w mstate) option" where
  "event_next E EvInit f s =
     (let (r, w) = virEventRegisterDefaultImpl E (world s)
      in Some (if r < 0 then EvExit else EvTop, f, s\<lparr>world := w\<rparr>))"
| "event_next E EvTop f s = Some (if g_stopMemlinkd s = 0 then EvCheck else EvEnd, f, s)"
| "event_next E EvCheck f s =
     (case g_libvirtConn s of
       None \<Rightarrow> Some (EvOpen, f, s)
     | Some c \<Rightarrow>
        (let (alive, w1) = virConnectIsAlive E (Some c) (world s)
         in if alive \<noteq> 1 then Some (EvClosed, f, s\<lparr>world := virConnectClose E c w1\<rparr>)
            else Some (EvOpen, f, s\<lparr>world := w1\<rparr>)))"
| "event_next E EvClosed f s = Some (EvOpen, f, s\<lparr>g_libvirtConn := None\<rparr>)"
| "event_next E EvOpen f s =
     (case g_libvirtConn s of
       Some c \<Rightarrow> Some (EvRegister, f, s)
     | None \<Rightarrow>
        (case virConnectOpen E LIBVIRT_CONN_URL (world s) of
          (Some c, w1) \<Rightarrow> Some (EvOpen, f, s\<lparr>g_libvirtConn := Some c, world := w1\<rparr>)
        | (None, w1) \<Rightarrow> do { w2 \<leftarrow> SleepApprox E 1 w1; Some (EvOpen, f, s\<lparr>world := w2\<rparr>) }))"
| "event_next E EvRegister f s =
     (let (r, s1) = DomainEventsRegister E s in Some (if r \<noteq> 0 then EvCleanup else EvRebuild, f, s1))"
| "event_next E EvRebuild f s =
     do { s1 \<leftarrow> lock_request s; s2 \<leftarrow> FreeAllVM E s1; Some (EvList, f, s2) }"
| "event_next E EvList f s = do { (ids, s1) \<leftarrow> collect_ids E s; Some (EvCollect ids, f, s1) }"
| "event_next E (EvCollect (i # ids)) f s =
     do { s1 \<leftarrow> FindAddVMToList E i s; Some (EvCollect ids, f, s1) }"
| "event_next E (EvCollect []) f s = do { s1 \<leftarrow> unlock_request s; Some (EvNotify, f, s1) }"
| "event_next E EvNotify f s = (let (f1, s1) = notify_ready E f s in Some (EvAlive, f1, s1))"
| "event_next E EvAlive f s =
     (let (alive, w1) = virConnectIsAlive E (g_libvirtConn s) (world s)
      in Some (if alive \<noteq> 0 then EvPoll else EvCleanup, f, s\<lparr>world := w1\<rparr>))"
| "event_next E EvPoll f s =
     (let ((ret, evs), w1) = virEventRunDefaultImpl E (world s) in Some (EvRun ret evs, f, s\<lparr>world := w1\<rparr>))"
| "event_next E (EvRun ret (ev # evs)) f s =
     do { (r, s1) \<leftarrow> DomainEventCallback E ev s; Some (EvRun ret evs, f, s1) }"
| "event_next E (EvRun ret []) f s =
     (if ret < 0 then do { w \<leftarrow> SleepApprox E 1 (world s); Some (EvAlive, f, s\<lparr>world := w\<rparr>) }
      else Some (EvAlive, f, s))"
| "event_next E EvCleanup f s = do { s1 \<leftarrow> cleanup_events E s; Some (EvTop, f, s1) }"
| "event_next E EvOff f s = Some (EvOff, f, s)"
| "event_next E EvEnd f s = Some (EvEnd, f, s)"
| "event_next E EvExit f s = Some (EvExit, f, s)"

subsection \<open>The balloon thread\<close>

fun balloon_next :: "'w ext \<Rightarrow> bpc \<Rightarrow> 'w mstate \<Rightarrow> (bpc \<times> 'w mstate) option" where
  "balloon_next E BlTop s = Some (if g_stopMemlinkd s = 0 then BlStats else BlEnd, s)"
| "balloon_next E BlStats s = do { s1 \<leftarrow> UpdateAllVmInfoAndMemoryStats E s; Some (BlSection, s1) }"
| "balloon_next E BlSection s = do { s1 \<leftarrow> balloon_section E s; Some (BlSleep, s1) }"
| "balloon_next E BlSleep s = do { w \<leftarrow> SleepApprox E 2 (world s); Some (BlTop, s\<lparr>world := w\<rparr>) }"
| "balloon_next E BlOff s = Some (BlOff, s)"
| "balloon_next E BlEnd s = Some (BlEnd, s)"

section \<open>Interleaving\<close>

definition process_up :: "'w dstate \<Rightarrow> bool" where
  "process_up d \<longleftrightarrow> (case main_at d of MDone r \<Rightarrow> False | _ \<Rightarrow> True) \<and> event_at d \<noteq> EvExit"

definition event_live :: "epc \<Rightarrow> bool" where
  "event_live pc \<longleftrightarrow> pc \<noteq> EvOff \<and> pc \<noteq> EvEnd \<and> pc \<noteq> EvExit"

definition balloon_live :: "bpc \<Rightarrow> bool" where
  "balloon_live pc \<longleftrightarrow> pc \<noteq> BlOff \<and> pc \<noteq> BlEnd"

inductive daemon_step :: "'w ext \<Rightarrow> 'w dstate \<Rightarrow> 'w dstate \<Rightarrow> bool" for E where
  main: "process_up d \<Longrightarrow> main_next E (main_at d) d = Some d' \<Longrightarrow> daemon_step E d d'"
| event: "process_up d \<Longrightarrow> event_live (event_at d) \<Longrightarrow> event_next E (event_at d) (init_flag d) (mem d) = Some (pc, f, s) \<Longrightarrow>
    daemon_step E d (d\<lparr>event_at := pc, init_flag := f, mem := s\<rparr>)"
| balloon: "process_up d \<Longrightarrow> balloon_live (balloon_at d) \<Longrightarrow> balloon_next E (balloon_at d) (mem d) = Some (pc, s) \<Longrightarrow>
    daemon_step E d (d\<lparr>balloon_at := pc, mem := s\<rparr>)"
| signal: "process_up d \<Longrightarrow> handlers d \<Longrightarrow> sig \<in> {SIGHUP, SIGINT, SIGTERM} \<Longrightarrow> \<not> main_mask d sig \<Longrightarrow>
    daemon_step E d (d\<lparr>mem := SignalHandler sig (mem d)\<rparr>)"

inductive daemon_reach :: "'w ext \<Rightarrow> 'w dstate \<Rightarrow> bool" for E where
  start: "daemon_reach E (init_dstate w)"
| step: "daemon_reach E d \<Longrightarrow> daemon_step E d d' \<Longrightarrow> daemon_reach E d'"

inductive_cases daemon_stepE: "daemon_step E d d'"

section \<open>The threads run the code\<close>

text \<open>
  The steps of a thread, taken alone, are the sequential code: the body of each loop is a run
  of its thread from the top of the loop to the top of the loop.
\<close>

lemma CreateEventThread_split:
  "CreateEventThread E blocked s =
     (let ((r, blocked1), w1) = create_event E blocked (world s)
      in if r < 0 then Some ((-1, blocked1), s\<lparr>world := w1\<rparr>)
         else do {
           (ts, w2) \<leftarrow> wait_deadline E (g_initSemWaitTimeout (cfg s)) w1;
           case ts of
             None \<Rightarrow> Some ((-1, blocked1), wait_over E True (s\<lparr>world := w2\<rparr>))
           | Some t \<Rightarrow> do {
               (rc, w3) \<leftarrow> sem_wait_loop E t w2;
               let late = (rc = -1 \<and> get_errno E w3 = ETIMEDOUT);
               Some ((if late then -1 else 0, blocked1), wait_over E late (s\<lparr>world := w3\<rparr>)) } })"
  by (auto simp: CreateEventThread_def create_event_def wait_deadline_def wait_over_def SemTimeWait_def Let_def
      split: prod.splits Option.bind_splits)

lemma CollectAddCurrentVMs_split:
  "CollectAddCurrentVMs E s = do { (ids, s1) \<leftarrow> collect_ids E s; foreach (FindAddVMToList E) ids s1 }"
  by (auto simp: CollectAddCurrentVMs_def collect_ids_def Let_def split: option.splits prod.splits)

end
