(* ===== verification/Daemon_Seq.thy ===== *)
theory Daemon_Seq
  imports Daemon
begin

text \<open>
  The steps of theory Daemon and the sequential code agree: a thread that runs undisturbed executes
  the bodies of theories Libvirt_Events, Balloon and Core, and the main thread's way out is \<open>CoreExit\<close>.
\<close>

section \<open>Runs of one thread\<close>

definition event_rel :: "'w ext \<Rightarrow> epc \<times> bool \<times> 'w mstate \<Rightarrow> epc \<times> bool \<times> 'w mstate \<Rightarrow> bool" where
  "event_rel E c c' \<longleftrightarrow> (case c of (pc, f, s) \<Rightarrow> event_live pc \<and> event_next E pc f s = Some c')"

abbreviation (input) event_runs :: "'w ext \<Rightarrow> epc \<times> bool \<times> 'w mstate \<Rightarrow> epc \<times> bool \<times> 'w mstate \<Rightarrow> bool" where
  "event_runs E \<equiv> (event_rel E)\<^sup>*\<^sup>*"

lemma event_run1:
  "event_next E pc f s = Some c' \<Longrightarrow> event_live pc \<Longrightarrow> event_runs E c' c'' \<Longrightarrow> event_runs E (pc, f, s) c''"
  by (rule converse_rtranclp_into_rtranclp) (simp add: event_rel_def)

lemma event_run_once: "event_next E pc f s = Some c' \<Longrightarrow> event_live pc \<Longrightarrow> event_runs E (pc, f, s) c'"
  by (rule r_into_rtranclp) (simp add: event_rel_def)

lemma event_run_trans:
  "event_runs E c c' \<Longrightarrow> event_runs E c' c'' \<Longrightarrow> event_runs E c c''"
  by (rule rtranclp_trans)

definition balloon_rel :: "'w ext \<Rightarrow> bpc \<times> 'w mstate \<Rightarrow> bpc \<times> 'w mstate \<Rightarrow> bool" where
  "balloon_rel E c c' \<longleftrightarrow> (case c of (pc, s) \<Rightarrow> balloon_live pc \<and> balloon_next E pc s = Some c')"

section \<open>The event thread\<close>

definition connect_runs :: "'w ext \<Rightarrow> 'w \<Rightarrow> nat \<times> 'w \<Rightarrow> bool" where
  "connect_runs E w cw \<longleftrightarrow> (\<forall>f s. g_libvirtConn s = None \<longrightarrow> world s = w \<longrightarrow>
     event_runs E (EvOpen, f, s) (EvRegister, f, s\<lparr>g_libvirtConn := Some (fst cw), world := snd cw\<rparr>))"

lemma connect_loop_run:
  assumes "connect_loop E w = Some cw"
  shows "connect_runs E w cw"
proof (rule connect_loop.raw_induct [OF _ assms])
  fix g :: "'a ext \<Rightarrow> 'a \<Rightarrow> (nat \<times> 'a) option" and E :: "'a ext" and w :: 'a and cw
  assume IH: "\<And>E w y. g E w = Some y \<Longrightarrow> connect_runs E w y"
    and body: "(case virConnectOpen E LIBVIRT_CONN_URL w of
       (Some c, w1) \<Rightarrow> Some (c, w1)
     | (None, w1) \<Rightarrow> do { w2 \<leftarrow> SleepApprox E 1 w1; g E w2 }) = Some cw"
  show "connect_runs E w cw"
    unfolding connect_runs_def
  proof (intro allI impI)
    fix f and s :: "'a mstate"
    assume s: "g_libvirtConn s = None" "world s = w"
    obtain co w1 where o: "virConnectOpen E LIBVIRT_CONN_URL w = (co, w1)" by fastforce
    show "event_runs E (EvOpen, f, s) (EvRegister, f, s\<lparr>g_libvirtConn := Some (fst cw), world := snd cw\<rparr>)"
    proof (cases co)
      case None
      with body o obtain w2 where w2: "SleepApprox E 1 w1 = Some w2" "g E w2 = Some cw"
        by (auto split: Option.bind_splits)
      from IH [OF w2(2), unfolded connect_runs_def, rule_format, of "s\<lparr>world := w2\<rparr>" f] s(1) have
        "event_runs E (EvOpen, f, s\<lparr>world := w2\<rparr>)
           (EvRegister, f, s\<lparr>g_libvirtConn := Some (fst cw), world := snd cw\<rparr>)" by simp
      then show ?thesis
        by (rule event_run1 [rotated 2]) (use s o None w2(1) in \<open>simp_all add: event_live_def\<close>)
    next
      case (Some c)
      with body o have cw: "cw = (c, w1)" by simp
      have "event_runs E (EvOpen, f, s\<lparr>g_libvirtConn := Some c, world := w1\<rparr>)
          (EvRegister, f, s\<lparr>g_libvirtConn := Some c, world := w1\<rparr>)"
        by (rule event_run_once) (simp_all add: event_live_def)
      then show ?thesis unfolding cw fst_conv snd_conv
        by (rule event_run1 [rotated 2])
          (use s o Some in \<open>simp_all add: event_live_def\<close>)
    qed
  qed
qed

lemma ConnectLibvirt_run:
  assumes "ConnectLibvirt E s = Some s'"
  shows "event_runs E (EvCheck, f, s) (EvRegister, f, s')"
proof (cases "g_libvirtConn s")
  case None
  with assms obtain c w where l: "connect_loop E (world s) = Some (c, w)"
    "s' = s\<lparr>g_libvirtConn := Some c, world := w\<rparr>"
    by (auto simp: ConnectLibvirt_def drop_dead_def split: Option.bind_splits)
  from connect_loop_run [OF l(1)] None have "event_runs E (EvOpen, f, s) (EvRegister, f, s')"
    by (simp add: connect_runs_def l(2))
  then show ?thesis by (rule event_run1 [rotated 2]) (use None in \<open>simp_all add: event_live_def\<close>)
next
  case (Some c)
  obtain al w1 where a: "virConnectIsAlive E (Some c) (world s) = (al, w1)" by fastforce
  show ?thesis
  proof (cases "al = 1")
    case True
    with assms a Some have s': "s' = s\<lparr>world := w1\<rparr>"
      by (auto simp: ConnectLibvirt_def drop_dead_def)
    have "event_runs E (EvOpen, f, s\<lparr>world := w1\<rparr>) (EvRegister, f, s\<lparr>world := w1\<rparr>)"
      by (rule event_run_once) (use Some in \<open>simp_all add: event_live_def\<close>)
    then show ?thesis unfolding s'
      by (rule event_run1 [rotated 2]) (use Some a True in \<open>simp_all add: event_live_def\<close>)
  next
    case False
    let ?w = "virConnectClose E c w1"
    let ?t = "s\<lparr>world := ?w, g_libvirtConn := None\<rparr>"
    from assms a Some False obtain c' w where l: "connect_loop E ?w = Some (c', w)"
      "s' = s\<lparr>g_libvirtConn := Some c', world := w\<rparr>"
      by (auto simp: ConnectLibvirt_def drop_dead_def split: Option.bind_splits)
    from connect_loop_run [OF l(1), unfolded connect_runs_def, rule_format, of ?t f] have
      "event_runs E (EvOpen, f, ?t) (EvRegister, f, s')" by (simp add: l(2))
    then have "event_runs E (EvClosed, f, s\<lparr>world := ?w\<rparr>) (EvRegister, f, s')"
      by (rule event_run1 [rotated 2]) (simp_all add: event_live_def)
    then show ?thesis by (rule event_run1 [rotated 2]) (use Some a False in \<open>simp_all add: event_live_def\<close>)
  qed
qed

lemma collect_run:
  "foreach (FindAddVMToList E) ids s = Some s' \<Longrightarrow> unlock_request s' = Some s'' \<Longrightarrow>
   event_runs E (EvCollect ids, f, s) (EvNotify, f, s'')"
proof (induction ids arbitrary: s)
  case Nil
  then show ?case
    by (auto simp: event_live_def intro: event_run_once)
next
  case (Cons i ids)
  then obtain s1 where "FindAddVMToList E i s = Some s1" "foreach (FindAddVMToList E) ids s1 = Some s'"
    by (auto split: Option.bind_splits)
  with Cons show ?case by (auto simp: event_live_def intro: event_run1)
qed

lemma rebuild_run:
  assumes "rebuild_list E s = Some s'"
  shows "event_runs E (EvRebuild, f, s) (EvNotify, f, s')"
proof -
  from assms obtain s1 s2 ids s3 s4 where
    r: "lock_request s = Some s1" "FreeAllVM E s1 = Some s2" "collect_ids E s2 = Some (ids, s3)"
      "foreach (FindAddVMToList E) ids s3 = Some s4" "unlock_request s4 = Some s'"
    by (auto simp: rebuild_list_def CollectAddCurrentVMs_split split: Option.bind_splits)
  have "event_runs E (EvList, f, s2) (EvNotify, f, s')"
    by (rule event_run1 [OF _ _ collect_run [OF r(4,5)]]) (simp_all add: r(3) event_live_def)
  then show ?thesis by (rule event_run1 [rotated 2]) (simp_all add: r(1,2) event_live_def)
qed

lemma callbacks_run:
  "run_callbacks E evs s = Some s' \<Longrightarrow> event_runs E (EvRun ret evs, f, s) (EvRun ret [], f, s')"
proof (induction evs arbitrary: s)
  case Nil
  then show ?case by (simp add: run_callbacks_def)
next
  case (Cons ev evs)
  then obtain r s1 where "DomainEventCallback E ev s = Some (r, s1)" "run_callbacks E evs s1 = Some s'"
    by (auto simp: run_callbacks_def split: Option.bind_splits)
  with Cons.IH show ?case by (auto simp: event_live_def intro: event_run1)
qed

lemma event_turn_run:
  assumes "event_turn E s = Some s'"
  shows "event_runs E (EvPoll, f, s) (EvAlive, f, s')"
proof -
  obtain ret evs w1 where p: "virEventRunDefaultImpl E (world s) = ((ret, evs), w1)" by (metis surj_pair)
  with assms obtain s1 where s1: "run_callbacks E evs (s\<lparr>world := w1\<rparr>) = Some s1"
    "(if ret < 0 then do { w2 \<leftarrow> SleepApprox E 1 (world s1); Some (s1\<lparr>world := w2\<rparr>) } else Some s1) = Some s'"
    by (auto simp: event_turn_def split: Option.bind_splits)
  have "event_runs E (EvRun ret [], f, s1) (EvAlive, f, s')"
    by (rule event_run_once)
      (use s1(2) in \<open>auto simp: event_live_def split: if_splits Option.bind_splits\<close>)
  with callbacks_run [OF s1(1)] have "event_runs E (EvRun ret evs, f, s\<lparr>world := w1\<rparr>) (EvAlive, f, s')"
    by (rule event_run_trans)
  then show ?thesis by (rule event_run1 [rotated 2]) (simp_all add: p event_live_def)
qed

definition inner_runs :: "'w ext \<Rightarrow> 'w mstate \<Rightarrow> 'w mstate \<Rightarrow> bool" where
  "inner_runs E s s' \<longleftrightarrow> (\<forall>f. event_runs E (EvAlive, f, s) (EvCleanup, f, s'))"

lemma event_loop_run:
  assumes "event_loop E s = Some s'"
  shows "inner_runs E s s'"
proof (rule event_loop.raw_induct [OF _ assms])
  fix g :: "'a ext \<Rightarrow> 'a mstate \<Rightarrow> 'a mstate option" and E :: "'a ext" and s s' :: "'a mstate"
  assume IH: "\<And>E s y. g E s = Some y \<Longrightarrow> inner_runs E s y"
    and body: "(case virConnectIsAlive E (g_libvirtConn s) (world s) of
       (alive, w1) \<Rightarrow>
         if alive \<noteq> 0 then do { s1 \<leftarrow> event_turn E (s\<lparr>world := w1\<rparr>); g E s1 }
         else Some (s\<lparr>world := w1\<rparr>)) = Some s'"
  obtain al w1 where a: "virConnectIsAlive E (g_libvirtConn s) (world s) = (al, w1)" by fastforce
  show "inner_runs E s s'"
    unfolding inner_runs_def
  proof
    fix f
    show "event_runs E (EvAlive, f, s) (EvCleanup, f, s')"
    proof (cases "al = 0")
      case True
      with body a show ?thesis by (auto simp: event_live_def intro: event_run_once)
    next
      case False
      with body a obtain s1 where s1: "event_turn E (s\<lparr>world := w1\<rparr>) = Some s1" "g E s1 = Some s'"
        by (auto split: Option.bind_splits)
      from event_turn_run [OF s1(1)] IH [OF s1(2), unfolded inner_runs_def, rule_format] have
        "event_runs E (EvPoll, f, s\<lparr>world := w1\<rparr>) (EvCleanup, f, s')" by (rule event_run_trans)
      then show ?thesis by (rule event_run1 [rotated 2]) (use a False in \<open>simp_all add: event_live_def\<close>)
    qed
  qed
qed

lemma cleanup_run:
  "cleanup_events E s = Some s' \<Longrightarrow> event_runs E (EvCleanup, f, s) (EvTop, f, s')"
  by (rule event_run_once) (simp_all add: event_live_def)

lemma event_body_run:
  assumes "DomainEventProcessThread_body E f s = Some (f', s')" and "g_stopMemlinkd s = 0"
  shows "event_runs E (EvTop, f, s) (EvTop, f', s')"
proof -
  from assms(1) obtain s1 where s1: "ConnectLibvirt E s = Some s1"
    by (auto simp: DomainEventProcessThread_body_def split: Option.bind_splits)
  obtain r s2 where r: "DomainEventsRegister E s1 = (r, s2)" by fastforce
  have "event_runs E (EvRegister, f, s1) (EvTop, f', s')"
  proof (cases "r = 0")
    case False
    with assms(1) s1 r have c: "cleanup_events E s2 = Some s'" "f' = f"
      by (auto simp: DomainEventProcessThread_body_def split: Option.bind_splits)
    show ?thesis unfolding c(2)
      by (rule event_run1 [OF _ _ cleanup_run [OF c(1)]]) (use r False in \<open>simp_all add: event_live_def\<close>)
  next
    case True
    with assms(1) s1 r obtain s3 s4 s5 where b: "rebuild_list E s2 = Some s3" "notify_ready E f s3 = (f', s4)"
      "event_loop E s4 = Some s5" "cleanup_events E s5 = Some s'"
      by (auto simp: DomainEventProcessThread_body_def split: Option.bind_splits prod.splits)
    have "event_runs E (EvAlive, f', s4) (EvTop, f', s')"
      using event_loop_run [OF b(3)] cleanup_run [OF b(4)] unfolding inner_runs_def by (blast intro: event_run_trans)
    then have "event_runs E (EvNotify, f, s3) (EvTop, f', s')"
      by (rule event_run1 [rotated 2]) (simp_all add: b(2) event_live_def)
    with rebuild_run [OF b(1)] have "event_runs E (EvRebuild, f, s2) (EvTop, f', s')" by (rule event_run_trans)
    then show ?thesis by (rule event_run1 [rotated 2]) (use r True in \<open>simp_all add: event_live_def\<close>)
  qed
  with ConnectLibvirt_run [OF s1] have "event_runs E (EvCheck, f, s) (EvTop, f', s')" by (rule event_run_trans)
  then show ?thesis by (rule event_run1 [rotated 2]) (use assms(2) in \<open>simp_all add: event_live_def\<close>)
qed

section \<open>The balloon thread and the way out\<close>

lemma balloon_body_run:
  assumes "BalloonVmMemThread_body E s = Some s'" and "g_stopMemlinkd s = 0"
  shows "(balloon_rel E)\<^sup>*\<^sup>* (BlTop, s) (BlTop, s')"
proof -
  from assms(1) obtain s1 s2 w where b: "UpdateAllVmInfoAndMemoryStats E s = Some s1"
    "balloon_section E s1 = Some s2" "SleepApprox E 2 (world s2) = Some w" "s' = s2\<lparr>world := w\<rparr>"
    by (auto simp: BalloonVmMemThread_body_def split: Option.bind_splits)
  have "balloon_rel E (BlTop, s) (BlStats, s)" "balloon_rel E (BlStats, s) (BlSection, s1)"
    "balloon_rel E (BlSection, s1) (BlSleep, s2)" "balloon_rel E (BlSleep, s2) (BlTop, s')"
    using b assms(2) by (simp_all add: balloon_rel_def balloon_live_def)
  then show ?thesis by (meson converse_rtranclp_into_rtranclp rtranclp.rtrancl_refl)
qed


section \<open>Starting once\<close>

text \<open>
  C24: One instance. When the pid file is locked by a running daemon, a second one closes it and
  returns 1 without truncating or deleting it, without touching the configuration and without
  starting a thread. The threads are started only with the lock held and the pid written into the
  emptied file, as a decimal number that reads back as the pid.
\<close>

theorem single_instance:
  assumes "snprintf_s_ok E" and "\<forall>w. 0 < getpid E w \<and> in_s32 (getpid E w)"
    and "daemon_call E (LogInit E (world (mem d))) = (r0, w1)" and "0 \<le> r0"
    and "open_creat E MEMLINKD_PID_FILE (umask_call E 23 w1) = (fd, w2)" and "0 \<le> fd"
    and "lockf_tlock E fd w2 = (r1, w3)"
  shows "(r1 < 0 \<longrightarrow> main_start E d =
      d\<lparr>main_fd := -2, mem := (mem d)\<lparr>world := LogExit E (close_fd E fd w3)\<rparr>, main_at := MDone 1\<rparr>) \<and>
    (main_at (main_start E d) = MEvent \<longrightarrow> 0 \<le> r1 \<and> main_fd (main_start E d) = fd \<and>
      (\<exists>r2 w4 t. ftruncate_0 E fd w3 = (r2, w4) \<and> 0 \<le> r2 \<and> 0 \<le> fst (write_fd E fd t w4) \<and>
         strtol10 t = (getpid E w4, [], False)))"
proof (cases "r1 < 0")
  case True
  then have "Daemonize E (LogInit E (world (mem d))) = (-2, close_fd E fd w3)"
    using assms(3-7) by (simp add: Daemonize_def)
  with True show ?thesis by (simp add: main_start_def Let_def)
next
  case False
  obtain r2 w4 where t: "ftruncate_0 E fd w3 = (r2, w4)" by fastforce
  let ?t = "show_int (getpid E w4)"
  obtain r3 w5 where w: "write_fd E fd ?t w4 = (r3, w5)" by fastforce
  have pid: "in_s32 (getpid E w4)" using assms(2) by simp
  then have "snprintf_s E 64 63 ?t = (int (length ?t), ?t)"
    using length_show_int [OF pid] by (intro snprintf_s_fits [OF assms(1)]) simp_all
  moreover have "?t \<noteq> []" by (simp add: show_int_def)
  ultimately have d: "Daemonize E (LogInit E (world (mem d))) =
      (if r2 < 0 then (-1, close_fd E fd w4) else if r3 < 0 then (-1, close_fd E fd w5) else (fd, w5))"
    using assms(3-7) False t w by (simp add: Daemonize_def)
  have "strtol10 ?t = (getpid E w4, [], False)"
    by (rule strtol10_show_int) (use pid in \<open>simp add: in_s32_def in_s64_def\<close>)
  then have "\<exists>t. 0 \<le> fst (write_fd E fd t w4) \<and> strtol10 t = (getpid E w4, [], False)" if "\<not> r3 < 0"
    using w that by (intro exI [of _ ?t]) simp
  with d t False show ?thesis by (auto simp: main_start_def Let_def split: prod.splits if_splits)
qed

theorem single_instance_witness:
  "main_at (main_start (ref_ext\<lparr>lockf_tlock := (\<lambda>_ w. (-1, w))\<rparr>) (init_dstate (0, []))) = MDone 1"
proof -
  let ?E = "ref_ext\<lparr>lockf_tlock := (\<lambda>_ w. (-1, w))\<rparr>"
  have "snprintf_s_ok ?E" "\<forall>w. 0 < getpid ?E w \<and> in_s32 (getpid ?E w)"
    by (simp_all add: snprintf_s_ok_def ref_ext_def in_s32_def)
  from single_instance [OF this, of "init_dstate (0, [])" 0 "(0, [])" 5 "(0, [])" "-1" "(0, [])"]
  show ?thesis by (simp add: ref_ext_def LogInit_def init_dstate_def init_mstate_def)
qed

end
