(* ===== verification/Sections.thy ===== *)
theory Sections
  imports Core Libvirt_Events
begin

text \<open>
  The critical sections of the list mutex, seen by the other threads. Each one finds the list well
  formed, unlocked, without foreign references and with sizes that libvirt can report, and leaves
  it so: this is the contract \<open>section\<close> below, which every section of the three threads fulfils.
\<close>

section \<open>Sizes\<close>

text \<open>
  libvirt's sizes are in KiB: \<open>2 ^ 49\<close> KiB are 512 EiB, more than any host has. \<open>sizes_documented\<close>
  says that libvirt reports sizes below that; \<open>vm_sized\<close> is what then holds of every record.
\<close>

abbreviation (input) size_limit :: int where "size_limit \<equiv> 562949953421312"

definition sizes_documented :: "'w ext \<Rightarrow> bool" where
  "sizes_documented E \<longleftrightarrow>
     (\<forall>d w r info w'. virDomainGetInfo E d w = ((r, info), w') \<longrightarrow> uint (info_maxMem info) < size_limit) \<and>
     (\<forall>c w r recs w'. virConnectGetAllDomainStats E c w = ((r, recs), w') \<longrightarrow>
        (\<forall>x \<in> set recs. \<forall>p \<in> set (rec_params x).
           pfield p \<in> {''balloon.current'', ''balloon.maximum'', ''balloon.usable'', ''balloon.unused''} \<longrightarrow>
           uint (praw p) < size_limit))"

definition vm_sized :: "VirtualMachineInfo \<Rightarrow> bool" where
  "vm_sized v \<longleftrightarrow> 0 \<le> memory v \<and> memory v < size_limit \<and>
     uint (actualBalloon (memstat v)) < size_limit \<and> uint (usable (memstat v)) < size_limit \<and>
     uint (unused (memstat v)) < size_limit \<and> uint (minGuarantee (memparam v)) < size_limit \<and>
     (\<forall>c \<in> set (currentActualBalloon v). 0 \<le> c \<and> c < 4611686018427387904)"

lemma vm_sized_sane: "vm_sized v \<Longrightarrow> vm_sane v"
  by (auto simp: vm_sized_def vm_sane_def sizes_ok_def guestFree_def)

lemma sint_limit: "uint (u :: u64) < size_limit \<Longrightarrow> sint u = uint u"
  by (rule sint_small) simp

lemma sized_clear: "vm_sized v \<Longrightarrow> vm_sized (clear_stats v)"
  by (simp add: vm_sized_def clear_stats_def)

lemma sized_param:
  assumes "vm_sized v"
    and "pfield p \<in> {''balloon.current'', ''balloon.maximum'', ''balloon.usable'', ''balloon.unused''} \<longrightarrow>
           uint (praw p) < size_limit"
  shows "vm_sized (apply_param p v)"
  using assms by (auto simp: vm_sized_def apply_param_def value_ul_def sint_limit Let_def)

lemma sized_UpdateVmInfo:
  assumes "sizes_documented E" and "vm_sized v" and "UpdateVmInfo E v w = ((rc, v'), w')"
  shows "vm_sized v'"
proof -
  obtain r info w1 where i: "virDomainGetInfo E (vdom v) w = ((r, info), w1)" by (metis surj_pair)
  with assms(1) have u: "uint (info_maxMem info) < size_limit" unfolding sizes_documented_def by blast
  show ?thesis
  proof (cases "r < 0")
    case True
    with i assms(2,3) show ?thesis by (simp add: UpdateVmInfo_def GetVmInfo_def)
  next
    case False
    with i assms(3) have "v' = v\<lparr>memory := sint (info_maxMem info), currentMem := sint (info_memory info),
        state := wrap16 (info_state info)\<rparr>" by (simp add: UpdateVmInfo_def GetVmInfo_def)
    with u assms(2) show ?thesis by (simp add: vm_sized_def sint_limit)
  qed
qed

text \<open>A turn of the balloon loop writes sizes only into the two slots of the check.\<close>

definition sizes_kept :: "VirtualMachineInfo \<Rightarrow> VirtualMachineInfo \<Rightarrow> bool" where
  "sizes_kept v v' \<longleftrightarrow> memory v' = memory v \<and> memstat v' = memstat v \<and> memparam v' = memparam v \<and>
     (currentActualBalloon v' = currentActualBalloon v \<or> currentActualBalloon v' = [0, 0] \<or>
      (\<exists>i. currentActualBalloon v' = (currentActualBalloon v)[i := sint (actualBalloon (memstat v))]))"

lemma sizes_kept_sized: "sizes_kept v v' \<Longrightarrow> vm_sized v \<Longrightarrow> vm_sized v'"
  by (auto simp: sizes_kept_def vm_sized_def sint_limit dest!: set_update_subset_insert [THEN subsetD])

lemma DoBallooning_sizes: "DoBallooning E g v w = Some (v', w') \<Longrightarrow> sizes_kept v v'"
  by (auto simp: DoBallooning_def count_calm_def sizes_kept_def Let_def
      split: if_splits Option.bind_splits prod.splits)

lemma BalloonCheck_sizes: "BalloonCheck v = Some (r, v') \<Longrightarrow> sizes_kept v v'"
  by (auto simp: BalloonCheck_def note_size_def sizes_kept_def Let_def split: if_splits Option.bind_splits)

lemma balloon_one_sizes:
  assumes "balloon_one E g v w = Some (v', w')"
  shows "sizes_kept v v'"
proof (cases "lockall v \<or> enable_fpr v \<or> \<not> ballooning v \<or> actualBalloon (memstat v) = 0")
  case True
  with assms have "v' = v \<or> DoBallooning E g v w = Some (v', w')"
    by (auto simp: balloon_one_def split: if_splits)
  then show ?thesis by (elim disjE) (simp add: sizes_kept_def, rule DoBallooning_sizes)
next
  case False
  with assms obtain r v1 where c: "BalloonCheck v = Some (r, v1)"
    by (auto simp: balloon_one_def split: Option.bind_splits)
  obtain sr w1 where t: "SetVmBalloonTarget E v1 (back_target v1 - BALLOON_BACK_RESERVED_SIZE_KB) w = (sr, w1)"
    by fastforce
  have "balloon_one E g v w = (if r = -1 then
        if sr < 0 then Some (v1\<lparr>incompleteBalloon := True\<rparr>, w1)
        else Some (v1\<lparr>ballooningDown := False, balloonI := 0, currentActualBalloon := [0, 0],
                     incompleteBalloon := False\<rparr>, w1)
      else Some (v1, if r = -2 then snd (SetVmBalloonTarget E v1 (back_target v1) w) else w))"
    using False c t by (simp add: balloon_one_def)
  with assms BalloonCheck_sizes [OF c] show ?thesis by (auto simp: sizes_kept_def split: if_splits)
qed

lemma sized_prepared: "vm_sized (prepared v) = vm_sized v"
  by (simp add: vm_sized_def)

section \<open>The contract of a section\<close>

definition vm_shared :: "VirtualMachineInfo \<Rightarrow> bool" where
  "vm_shared v \<longleftrightarrow> refcount v = 1 \<and> vm_sized v"

definition list_safe :: "'w mstate \<Rightarrow> bool" where
  "list_safe s \<longleftrightarrow> vmlist_inv s \<and> \<not> lock s \<and> (\<forall>a v. vmheap s a = Some v \<longrightarrow> vm_shared v)"

lemma list_safeD:
  assumes "list_safe s"
  shows "vmlist_inv s" and "\<not> lock s" and "sole_refs s" and "vmheap s a = Some v \<Longrightarrow> vm_shared v"
  using assms by (auto simp: list_safe_def sole_refs_def vm_shared_def)

lemma list_safe_frame [simp]:
  "list_safe (s\<lparr>requestLock := b\<rparr>) = list_safe s"
  "list_safe (s\<lparr>world := w\<rparr>) = list_safe s"
  "list_safe (s\<lparr>cfg := g\<rparr>) = list_safe s"
  "list_safe (s\<lparr>g_libvirtConn := c\<rparr>) = list_safe s"
  "list_safe (s\<lparr>g_libvirtChange := i\<rparr>) = list_safe s"
  "list_safe (s\<lparr>g_stopMemlinkd := j\<rparr>) = list_safe s"
  "list_safe (s\<lparr>g_domainEvents := es\<rparr>) = list_safe s"
  by (simp_all add: list_safe_def)

lemma list_safe_init: "list_safe (init_mstate w)"
  using vmlist_inv_init by (simp add: list_safe_def init_mstate_def)

lemma heap_vms: "vmlist_inv s \<Longrightarrow> (\<forall>a v. vmheap s a = Some v \<longrightarrow> P v) \<longleftrightarrow> (\<forall>v \<in> set (vms s). P v)"
proof -
  assume inv: "vmlist_inv s"
  have "vmheap s a = Some v \<Longrightarrow> v \<in> set (vms s)" for a v
    using vmlist_invD(2) [OF inv] by (auto simp: vms_def intro!: image_eqI [of _ _ a])
  moreover have "v \<in> set (vms s) \<Longrightarrow> \<exists>a. vmheap s a = Some v" for v
    using vmlist_inv_heap [OF inv] by (fastforce simp: vms_def)
  ultimately show ?thesis by metis
qed

text \<open>Giving the lock back after a change of the records.\<close>

lemma unlock_safe:
  assumes "vmlist_inv u" and "\<forall>v \<in> set (vms u). vm_shared v" and "list_frame (s\<lparr>lock := True\<rparr>) u"
    and "\<not> lock s" and "unlock_vmlist u = Some s'"
  shows "list_safe s' \<and> list_frame s s'"
proof -
  have "s' = u\<lparr>lock := False\<rparr>" using assms(5) by (simp add: mutex split: if_splits)
  moreover have "\<forall>a v. vmheap u a = Some v \<longrightarrow> vm_shared v" using assms(1,2) heap_vms by blast
  ultimately show ?thesis using assms(1,3,4) by (simp add: list_safe_def list_frame_def)
qed

locale list_section =
  fixes op :: "'w ext \<Rightarrow> 'w mstate \<Rightarrow> 'w mstate option"
  assumes section_safe: "calloc_ok E \<Longrightarrow> sizes_documented E \<Longrightarrow> list_safe s \<Longrightarrow> op E s = Some s' \<Longrightarrow>
    list_safe s' \<and> list_frame s s'"
begin

lemma keeps_safe: "calloc_ok E \<Longrightarrow> sizes_documented E \<Longrightarrow> list_safe s \<Longrightarrow> op E s = Some s' \<Longrightarrow> list_safe s'"
  using section_safe [of E s s'] by simp

lemma keeps_frame: "calloc_ok E \<Longrightarrow> sizes_documented E \<Longrightarrow> list_safe s \<Longrightarrow> op E s = Some s' \<Longrightarrow> list_frame s s'"
  using section_safe [of E s s'] by simp

end

text \<open>A loop over the records inside a section.\<close>

context vm_step
begin

lemma sweep_shared:
  assumes "vmlist_inv s" and "\<forall>v \<in> set (vms s). vm_shared v" and "sweep f s = Some s'"
    and "\<And>v w v' w'. vm_ok v \<Longrightarrow> vm_sized v \<Longrightarrow> f v w = Some (v', w') \<Longrightarrow> vm_sized v'"
  shows "\<forall>v \<in> set (vms s'). vm_shared v"
proof
  fix v' assume v': "v' \<in> set (vms s')"
  have "list_all2 (\<lambda>v v'. same_vm v v' \<and> (\<exists>w w'. f v w = Some (v', w'))) (vms s) (vms s')"
    using sweep_ok(4,5) [OF assms(1,3)] by (simp add: list_all2_conv_all_nth)
  moreover obtain i where i: "i < length (vms s')" "v' = vms s' ! i" using v' by (auto simp: in_set_conv_nth)
  ultimately have "same_vm (vms s ! i) v' \<and> (\<exists>w w'. f (vms s ! i) w = Some (v', w'))" "i < length (vms s)"
    by (simp_all add: list_all2_conv_all_nth)
  then obtain v w w' where v: "v \<in> set (vms s)" "same_vm v v'" "f v w = Some (v', w')" using nth_mem by blast
  moreover have "vm_ok v" using heap_vms [OF assms(1), of vm_ok] vmlist_invD(4) [OF assms(1)] v(1) by blast
  ultimately show "vm_shared v'" using assms(2,4) by (auto simp: vm_shared_def same_vm_def)
qed

lemma locked_sweep:
  assumes "list_safe s" and "do { s1 \<leftarrow> lock_vmlist s; s2 \<leftarrow> sweep f s1; unlock_vmlist s2 } = Some s'"
    and "\<And>v w v' w'. vm_ok v \<Longrightarrow> vm_sized v \<Longrightarrow> f v w = Some (v', w') \<Longrightarrow> vm_sized v'"
  shows "list_safe s' \<and> list_frame s s'"
proof -
  note s = list_safeD [OF assms(1)]
  let ?s1 = "s\<lparr>lock := True\<rparr>"
  from assms(2) s(2) obtain s2 where s2: "sweep f ?s1 = Some s2" "unlock_vmlist s2 = Some s'"
    by (auto simp: mutex split: Option.bind_splits)
  have inv: "vmlist_inv ?s1" using s(1) by simp
  have "\<forall>v \<in> set (vms ?s1). vm_shared v"
    using heap_vms [OF s(1), of vm_shared] s(4) by (simp add: vms_def)
  then have "\<forall>v \<in> set (vms s2). vm_shared v"
    by (rule sweep_shared [OF inv _ s2(1)]) (rule assms(3))
  from unlock_safe [OF sweep_ok(1) [OF inv s2(1)] this sweep_ok(2) [OF inv s2(1)] s(2) s2(2)] show ?thesis .
qed

end

section \<open>The sections\<close>

interpretation update_section: list_section UpdateAllVmInfo
proof
  fix E :: "'w ext" and s s' :: "'w mstate"
  assume *: "sizes_documented E" "list_safe s" "UpdateAllVmInfo E s = Some s'"
  show "list_safe s' \<and> list_frame s s'"
    by (rule update_step.locked_sweep [OF *(2) *(3) [unfolded UpdateAllVmInfo_def]])
      (auto dest: sized_UpdateVmInfo [OF *(1)] split: prod.splits)
qed

interpretation back_section: list_section BalloonBackVmMem
proof
  fix E :: "'w ext" and s s' :: "'w mstate"
  assume *: "list_safe s" "BalloonBackVmMem E s = Some s'"
  show "list_safe s' \<and> list_frame s s'"
    by (rule back_step.locked_sweep [OF *(1) *(2) [unfolded BalloonBackVmMem_def]]) (simp add: back_one_def)
qed

interpretation free_section: list_section FreeAllVM
proof
  fix E :: "'w ext" and s s' :: "'w mstate"
  assume *: "list_safe s" "FreeAllVM E s = Some s'"
  note s = list_safeD [OF *(1)]
  from FreeAllVM_all [OF s(1,3,2), of E] FreeAllVM_runs [OF s(1,2), of E] *(2) show
    "list_safe s' \<and> list_frame s s'" by (auto simp: list_safe_def)
qed

interpretation balloon_pass: list_section balloon_section
proof
  fix E :: "'w ext" and s s' :: "'w mstate"
  assume *: "list_safe s" "balloon_section E s = Some s'"
  note s = list_safeD [OF *(1)]
  obtain t where t: "vmlist_inv t" "list_frame (s\<lparr>lock := True\<rparr>) t" "vms t = map prepared (vms s)"
    "balloon_section E s = do { u \<leftarrow> sweep (balloon_one E (cfg s)) t; unlock_vmlist u }"
    by (rule balloon_section_split [OF s(1,2)])
  from *(2) t(4) obtain u where u: "sweep (balloon_one E (cfg s)) t = Some u" "unlock_vmlist u = Some s'"
    by (auto split: Option.bind_splits)
  have "vm_shared (prepared v)" if "v \<in> set (vms s)" for v
  proof -
    have "vm_ok v" "vm_shared v" using that heap_vms [OF s(1)] vmlist_invD(4) [OF s(1)] s(4) by blast+
    then show ?thesis using mark_incomplete_ok [of v] record_running_ok [of "mark_incomplete v"]
      by (simp add: vm_shared_def sized_prepared) (simp add: prepared_def same_vm_def)
  qed
  then have "\<forall>v \<in> set (vms t). vm_shared v" using t(3) by auto
  then have "\<forall>v \<in> set (vms u). vm_shared v"
    by (rule balloon_step.sweep_shared [OF t(1) _ u(1)]) (rule sizes_kept_sized [OF balloon_one_sizes])
  from unlock_safe [OF balloon_step.sweep_ok(1) [OF t(1) u(1)] this _ s(2) u(2)]
    list_frame_trans [OF t(2) balloon_step.sweep_ok(2) [OF t(1) u(1)]]
  show "list_safe s' \<and> list_frame s s'" by blast
qed

text \<open>The statistics: cleared, then overwritten from the records.\<close>

lemma GetOneDomainStats_shared:
  assumes "vmlist_inv s" and "\<forall>v \<in> set (vms s). vm_shared v" and "GetOneDomainStats E r s = Some s'"
    and "\<And>p v. p \<in> set (rec_params r) \<Longrightarrow> vm_sized v \<Longrightarrow> vm_sized (apply_param p v)"
  shows "\<forall>v \<in> set (vms s'). vm_shared v"
proof -
  have fold: "vm_sized v \<Longrightarrow> set ps \<subseteq> set (rec_params r) \<Longrightarrow> vm_sized (fold apply_param ps v)" for ps v
    by (induction ps arbitrary: v) (auto intro: assms(4))
  obtain w found where f: "s' = s\<lparr>world := w\<rparr> \<or>
      on_vm found (\<lambda>v w. Some (fold apply_param (rec_params r) v, w)) (s\<lparr>world := w\<rparr>) = Some s'"
    using assms(3) by (auto simp: GetOneDomainStats_def GetVMByDom_def split: prod.splits option.splits Option.bind_splits)
  then show ?thesis
  proof
    assume "s' = s\<lparr>world := w\<rparr>"
    with assms(2) show ?thesis by (simp add: vms_def)
  next
    let ?s = "s\<lparr>world := w\<rparr>"
    assume o: "on_vm found (\<lambda>v w. Some (fold apply_param (rec_params r) v, w)) ?s = Some s'"
    have inv: "vmlist_inv ?s" using assms(1) by simp
    from param_step.on_vm_ok [OF inv o] obtain v v' where u: "vmlist_inv s'" "vmheap s found = Some v"
      "vmheap s' = (vmheap s)(found \<mapsto> v')" "same_vm v v'" "v' = fold apply_param (rec_params r) v" by auto
    have "\<forall>a v. vmheap s a = Some v \<longrightarrow> vm_shared v" using heap_vms [OF assms(1), of vm_shared] assms(2) by simp
    moreover from this u(2,4,5) fold have "vm_shared v'" by (simp add: vm_shared_def same_vm_def)
    ultimately have "\<forall>a v. vmheap s' a = Some v \<longrightarrow> vm_shared v" using u(3) by simp
    then show ?thesis using heap_vms [OF u(1), of vm_shared] by simp
  qed
qed

lemma GetAllDomainsStats_shared:
  assumes "sizes_documented E" and "vmlist_inv s" and "\<forall>v \<in> set (vms s). vm_shared v"
    and "GetAllDomainsStats E s = Some s'"
  shows "\<forall>v \<in> set (vms s'). vm_shared v"
proof (cases "g_libvirtConn s")
  case None
  with assms(3,4) show ?thesis by (simp add: GetAllDomainsStats_def)
next
  case (Some c)
  obtain s1 where s1: "ClearAllDomainStats s = Some s1"
    using clear_step.sweep_runs [OF assms(2)] by (auto simp: ClearAllDomainStats_def)
  note cl = clear_step.sweep_ok(1-3) [OF assms(2) s1 [unfolded ClearAllDomainStats_def]]
  have sh: "\<forall>v \<in> set (vms s1). vm_shared v"
    by (rule clear_step.sweep_shared [OF assms(2,3) s1 [unfolded ClearAllDomainStats_def]]) (auto intro: sized_clear)
  obtain ret recs w where r: "virConnectGetAllDomainStats E c (world s1) = ((ret, recs), w)" by (metis surj_pair)
  have par: "vm_sized (apply_param p v)" if "x \<in> set recs" "p \<in> set (rec_params x)" "vm_sized v" for x p v
    using assms(1) [unfolded sizes_documented_def, THEN conjunct2, rule_format, OF r] that
    by (intro sized_param) auto
  let ?I = "\<lambda>t. vmlist_inv t \<and> (\<forall>v \<in> set (vms t). vm_shared v)"
  have step: "\<exists>t'. GetOneDomainStats E x t = Some t' \<and> ?I t'" if "x \<in> set recs" "?I t" for x t
  proof -
    from GetOneDomainStats_inv [of t E x] that(2) obtain t' where t': "GetOneDomainStats E x t = Some t'" "vmlist_inv t'" by blast
    moreover have "\<forall>v \<in> set (vms t'). vm_shared v"
      by (rule GetOneDomainStats_shared [OF _ _ t'(1)]) (use that par in auto)
    ultimately show ?thesis by blast
  qed
  have "?I (s1\<lparr>world := w\<rparr>)" using cl(1) sh by (simp add: vms_def)
  then have "\<exists>t. foreach (GetOneDomainStats E) recs (s1\<lparr>world := w\<rparr>) = Some t \<and> ?I t"
    by (rule foreach_keeps [rotated]) (rule step)
  with assms(4) Some s1 r sh show ?thesis
    by (cases "ret < 0") (auto simp: GetAllDomainsStats_def Let_def vms_def)
qed

interpretation stats_section: list_section UpdateAllVmInfoAndMemoryStats
proof
  fix E :: "'w ext" and s s' :: "'w mstate"
  assume *: "sizes_documented E" "list_safe s" "UpdateAllVmInfoAndMemoryStats E s = Some s'"
  note s = list_safeD [OF *(2)]
  let ?s1 = "s\<lparr>lock := True\<rparr>"
  from *(3) s(2) obtain u where u: "GetAllDomainsStats E ?s1 = Some u" "unlock_vmlist u = Some s'"
    by (auto simp: UpdateAllVmInfoAndMemoryStats_def mutex split: Option.bind_splits)
  have inv: "vmlist_inv ?s1" using s(1) by simp
  have "\<forall>v \<in> set (vms ?s1). vm_shared v"
    using heap_vms [OF s(1), of vm_shared] s(4) by (simp add: vms_def)
  note sh = GetAllDomainsStats_shared [OF *(1) inv this u(1)]
  from GetAllDomainsStats_inv [OF inv, of E] u(1) have "vmlist_inv u" "list_frame ?s1 u" by auto
  from unlock_safe [OF this(1) sh this(2) s(2) u(2)] show "list_safe s' \<and> list_frame s s'" .
qed

text \<open>Adding and deleting.\<close>

lemma InitAndCheckVM_sized:
  assumes "sizes_documented E" and "vm_sized v" and "InitAndCheckVM E conn g v w = Some ((0, v'), w')"
  shows "vm_sized v'"
proof -
  from InitAndCheckVM_update [OF assms(3)] obtain d name b w5 ret w6 where
    u: "UpdateVmInfo E (v\<lparr>vdom := Some d, domname := Some name, isWindows := b\<rparr>) w5 = ((ret, v'), w6)"
    by (elim exE)
  have "vm_sized (v\<lparr>vdom := Some d, domname := Some name, isWindows := b\<rparr>)"
    using assms(2) by (simp add: vm_sized_def)
  from sized_UpdateVmInfo [OF assms(1) this u] show ?thesis .
qed

lemma FindAdd_origin:
  assumes "vmlist_inv s" and "\<not> lock s" and "FindAddVMToList E did s = Some s'" and "vmheap s' a = Some v"
  shows "vmheap s a = Some v \<or> (\<exists>w w'. InitAndCheckVM E (g_libvirtConn s) (cfg s) (fresh_vm did) w = Some ((0, v), w'))"
proof -
  obtain r where r: "find_vm (\<lambda>v. Some (domid v = did)) (domainsListHead s) (vmheap s) = Some r"
    using find_domid(2) [OF assms(1)] by blast
  obtain p w where c: "calloc_vm E (\<lambda>a. vmheap s a \<noteq> None) (world s) = (p, w)" by fastforce
  show ?thesis
  proof (cases "r = None \<and> p \<noteq> None")
    case False
    then consider b where "r = Some b" | "r = None" "p = None" by (cases r) auto
    then have "vmheap s' = vmheap s"
      by cases (use assms(2,3) r c in \<open>auto simp: FindAddVMToList_def NewVM_eq mutex\<close>)
    with assms(4) show ?thesis by simp
  next
    case True
    then obtain b where b: "p = Some b" "r = None" by auto
    from assms(2,3) r c b obtain rc v' w' where
      i: "InitAndCheckVM E (g_libvirtConn s) (cfg s) (fresh_vm did) w = Some ((rc, v'), w')"
      by (auto simp: FindAddVMToList_def NewVM_eq mutex split: Option.bind_splits)
    show ?thesis
    proof (cases "rc = 0")
      case True
      with assms(2,3) r c b i have "vmheap s' = (vmheap s)(b \<mapsto> v')"
        by (auto simp: FindAddVMToList_def NewVM_eq mutex put_vm_def split: Option.bind_splits)
      with assms(4) i True show ?thesis by (auto split: if_splits)
    next
      case False
      with assms(2,3) r c b i have "vmheap s' = (vmheap s)(b := None)"
        by (auto simp: FindAddVMToList_def NewVM_eq mutex put_vm_def FreeVM_def Let_def)
      with assms(4) show ?thesis by (simp split: if_splits)
    qed
  qed
qed

lemma fresh_vm_sized: "vm_sized (fresh_vm did)"
  by (simp add: vm_sized_def fresh_vm_def zero_vm_def zero_stats_def zero_params_def)

interpretation add_section: list_section "\<lambda>E. FindAddVMToList E did" for did
proof
  fix E :: "'w ext" and s s' :: "'w mstate"
  assume *: "calloc_ok E" "sizes_documented E" "list_safe s" "FindAddVMToList E did s = Some s'"
  note s = list_safeD [OF *(3)]
  note safe = find_add.safe [OF *(1) s(1,2) *(4)]
  have "sole_refs s'" by (rule FindAdd_more(1) [OF *(1) s(1,2) *(4) s(3)])
  moreover have "vm_sized v" if "vmheap s' a = Some v" for a v
    using FindAdd_origin [OF s(1,2) *(4) that] s(4) InitAndCheckVM_sized [OF *(2) fresh_vm_sized]
    by (auto simp: vm_shared_def)
  ultimately show "list_safe s' \<and> list_frame s s'"
    using safe s(2) by (auto simp: list_safe_def vm_shared_def sole_refs_def list_frame_def)
qed

interpretation delete_section: list_section "\<lambda>E. FindDeleteVMFromList E name" for name
proof
  fix E :: "'w ext" and s s' :: "'w mstate"
  assume *: "calloc_ok E" "list_safe s" "FindDeleteVMFromList E name s = Some s'"
  note s = list_safeD [OF *(2)]
  let ?s1 = "s\<lparr>lock := True\<rparr>"
  have "vmheap s a = Some v" if h: "vmheap s' a = Some v" for a v
  proof (cases "find_vm (\<lambda>v. map_option (\<lambda>n. n = name) (domname v)) (domainsListHead s) (vmheap s)")
    case None
    with *(3) s(2) show ?thesis by (simp add: FindDeleteVMFromList_def mutex)
  next
    case (Some r)
    show ?thesis
    proof (cases r)
      case None
      with Some *(3) s(2) h show ?thesis by (simp add: FindDeleteVMFromList_def mutex)
    next
      case (Some b)
      with \<open>find_vm _ _ _ = Some r\<close> find_vm_SomeD obtain u where u: "vmheap ?s1 b = Some u" by fastforce
      then have "refcount u = 1" using s(3) by (simp add: sole_refs_def)
      moreover have "vmlist_inv ?s1" using s(1) by simp
      ultimately obtain w where "VMInfoUnref E b ?s1 = Some (?s1\<lparr>domainsListHead := remove1 b (domainsListHead ?s1),
          count := count ?s1 - 1, vmheap := (vmheap ?s1)(b := None), world := w\<rparr>)"
        using VMInfoUnref_last u by blast
      with \<open>find_vm _ _ _ = Some r\<close> Some *(3) s(2) h show ?thesis
        by (auto simp: FindDeleteVMFromList_def mutex split: if_splits)
    qed
  qed
  with s(2,4) find_delete.safe [OF *(1) s(1,2) *(3)] show "list_safe s' \<and> list_frame s s'"
    by (auto simp: list_safe_def list_frame_def)
qed

interpretation callback_section: list_section "\<lambda>E s. map_option snd (DomainEventCallback E ev s)" for ev
proof
  fix E :: "'w ext" and s s' :: "'w mstate"
  assume *: "calloc_ok E" "sizes_documented E" "list_safe s" "map_option snd (DomainEventCallback E ev s) = Some s'"
  from *(4) obtain w where w: "s' = s\<lparr>world := w\<rparr> \<or> s' = s \<or>
      (\<exists>did n. ProcessDomainEvent E did n (ev_type ev) (s\<lparr>world := w\<rparr>) = Some s')"
    by (auto simp: DomainEventCallback_def split: option.splits prod.splits Option.bind_splits)
  let ?s = "s\<lparr>world := w\<rparr>"
  have safe: "list_safe ?s" using *(3) by simp
  have fr: "list_frame ?s s' \<Longrightarrow> list_frame s s'" by (simp add: list_frame_def)
  have "list_safe s' \<and> list_frame ?s s'" if "ProcessDomainEvent E did n (ev_type ev) ?s = Some s'" for did n
    using that add_section.section_safe [OF *(1,2) safe, of did s'] delete_section.section_safe [OF *(1,2) safe, of n s'] safe
    by (auto simp: ProcessDomainEvent_def split: if_splits)
  with w *(3) fr show "list_safe s' \<and> list_frame s s'" by (auto simp: list_frame_def)
qed

end
