(* ===== verification/Daemon_Inv.thy ===== *)
theory Daemon_Inv
  imports Daemon_Seq Sections
begin

text \<open>
  What holds in every state that the daemon can reach, however its threads interleave and whenever
  a signal arrives; that no thread ever faults (no trap on an overflow, no stray pointer, no
  deadlock of a mutex with itself); how a stop request ends the process; and what the unprotected
  connection handle allows.
\<close>

section \<open>Invariants of the interleaving\<close>

locale daemon_invariant =
  fixes env :: "'w ext \<Rightarrow> bool" and I :: "'w dstate \<Rightarrow> bool"
  assumes init_holds: "I (init_dstate w)"
    and main_keeps: "env E \<Longrightarrow> I d \<Longrightarrow> process_up d \<Longrightarrow> main_next E (main_at d) d = Some d' \<Longrightarrow> I d'"
    and event_keeps: "env E \<Longrightarrow> I d \<Longrightarrow> event_next E (event_at d) (init_flag d) (mem d) = Some (epc, f, s) \<Longrightarrow>
      event_live (event_at d) \<Longrightarrow> I (d\<lparr>event_at := epc, init_flag := f, mem := s\<rparr>)"
    and balloon_keeps: "env E \<Longrightarrow> I d \<Longrightarrow> balloon_next E (balloon_at d) (mem d) = Some (bpc, s) \<Longrightarrow>
      balloon_live (balloon_at d) \<Longrightarrow> I (d\<lparr>balloon_at := bpc, mem := s\<rparr>)"
    and signal_keeps: "I d \<Longrightarrow> handlers d \<Longrightarrow> sig \<in> {1, 2, 15} \<Longrightarrow> I (d\<lparr>mem := SignalHandler sig (mem d)\<rparr>)"
begin

lemma step_keeps: "env E \<Longrightarrow> I d \<Longrightarrow> daemon_step E d d' \<Longrightarrow> I d'"
  by (erule daemon_stepE) (auto intro: main_keeps event_keeps balloon_keeps signal_keeps)

lemma reach_holds: "daemon_reach E d \<Longrightarrow> env E \<Longrightarrow> I d"
  by (induction rule: daemon_reach.induct) (auto intro: init_holds step_keeps)

end

section \<open>The invariant of the daemon\<close>

definition holds_request :: "epc \<Rightarrow> bool" where
  "holds_request pc \<longleftrightarrow> (case pc of EvList \<Rightarrow> True | EvCollect ids \<Rightarrow> True | _ \<Rightarrow> False)"

definition may_register :: "epc \<Rightarrow> bool" where
  "may_register pc \<longleftrightarrow> (case pc of EvRebuild \<Rightarrow> True | EvList \<Rightarrow> True | EvCollect ids \<Rightarrow> True | EvNotify \<Rightarrow> True
     | EvAlive \<Rightarrow> True | EvPoll \<Rightarrow> True | EvRun ret evs \<Rightarrow> True | EvCleanup \<Rightarrow> True | _ \<Rightarrow> False)"

definition has_conn :: "epc \<Rightarrow> bool" where
  "has_conn pc \<longleftrightarrow> may_register pc \<or> pc = EvRegister \<or> pc = EvClosed"

definition event_inv :: "epc \<Rightarrow> 'w mstate \<Rightarrow> bool" where
  "event_inv pc s \<longleftrightarrow> list_safe s \<and> (requestLock s \<longleftrightarrow> holds_request pc) \<and>
     (\<not> may_register pc \<longrightarrow> (\<forall>e \<in> set (g_domainEvents s). event_id e < 0)) \<and>
     (has_conn pc \<longrightarrow> g_libvirtConn s \<noteq> None)"

definition env_safe :: "'w ext \<Rightarrow> bool" where
  "env_safe E \<longleftrightarrow> calloc_ok E \<and> sizes_documented E"

lemma env_safeD: "env_safe E \<Longrightarrow> calloc_ok E" "env_safe E \<Longrightarrow> sizes_documented E"
  by (simp_all add: env_safe_def)

lemmas pc_defs = holds_request_def may_register_def has_conn_def

lemma event_inv_section:
  "event_inv pc s \<Longrightarrow> list_safe s' \<Longrightarrow> list_frame s s' \<Longrightarrow> event_inv pc s'"
  by (simp add: event_inv_def list_frame_def)

lemma event_inv_frame [simp]:
  "event_inv pc (s\<lparr>world := w\<rparr>) = event_inv pc s"
  "event_inv pc (s\<lparr>cfg := g\<rparr>) = event_inv pc s"
  "event_inv pc (s\<lparr>g_libvirtChange := i\<rparr>) = event_inv pc s"
  "event_inv pc (s\<lparr>g_stopMemlinkd := j\<rparr>) = event_inv pc s"
  by (simp_all add: event_inv_def)

text \<open>What the event thread changes of the settings and the stop flag: nothing.\<close>

definition kept :: "'w mstate \<Rightarrow> 'w mstate \<Rightarrow> bool" where
  "kept s s' \<longleftrightarrow> cfg s' = cfg s \<and> g_stopMemlinkd s' = g_stopMemlinkd s"

lemma list_frame_kept: "list_frame s s' \<Longrightarrow> kept s s'"
  by (simp add: list_frame_def kept_def)

text \<open>A place at which the event thread runs one section of the list code: the lock it holds and the
  handles it has are those of the place it came from.\<close>

lemma event_section_moves:
  assumes "event_inv pc s" and "list_safe s'" and "list_frame s s'"
    and "holds_request pc' = holds_request pc" and "may_register pc' = may_register pc" and "has_conn pc' = has_conn pc"
  shows "event_inv pc' s' \<and> kept s s'"
  using assms by (simp add: event_inv_def list_frame_def kept_def)

lemma event_rebuild_moves:
  assumes "env_safe E" and "event_inv EvRebuild s" and "event_next E EvRebuild f s = Some (pc', f', s')"
  shows "event_inv pc' s' \<and> kept s s'"
proof -
  from assms(3) obtain s2 where s2: "FreeAllVM E (s\<lparr>requestLock := True\<rparr>) = Some s2"
    "pc' = EvList" "s' = s2" by (auto simp: mutex split: Option.bind_splits if_splits)
  have "list_safe (s\<lparr>requestLock := True\<rparr>)" using assms(2) by (simp add: event_inv_def)
  from free_section.section_safe [OF env_safeD [OF assms(1)] this s2(1)] s2 assms(2) show ?thesis
    by (auto simp: event_inv_def list_frame_def pc_defs kept_def)
qed

lemma event_list_moves:
  assumes "event_inv EvList s" and "event_next E EvList f s = Some (pc', f', s')"
  shows "event_inv pc' s' \<and> kept s s'"
proof -
  from assms(2) obtain ids w where "s' = s \<or> s' = s\<lparr>world := w\<rparr>" "pc' = EvCollect ids"
    by (auto simp: collect_ids_def Let_def split: Option.bind_splits option.splits prod.splits if_splits)
  with assms(1) show ?thesis by (auto simp: event_inv_def pc_defs kept_def)
qed

lemma event_collect_moves:
  assumes "env_safe E" and "event_inv (EvCollect ids) s" and "event_next E (EvCollect ids) f s = Some (pc', f', s')"
  shows "event_inv pc' s' \<and> kept s s'"
proof (cases ids)
  case Nil
  with assms(2,3) show ?thesis
    by (auto simp: mutex event_inv_def pc_defs kept_def split: Option.bind_splits if_splits)
next
  case (Cons i js)
  with assms(3) have "FindAddVMToList E i s = Some s'" "pc' = EvCollect js" by (auto split: Option.bind_splits)
  with assms(2) add_section.section_safe [OF env_safeD [OF assms(1)], of s i s'] show ?thesis
    by (intro event_section_moves [OF assms(2)]) (auto simp: event_inv_def pc_defs)
qed

lemma event_run_moves:
  assumes "env_safe E" and "event_inv (EvRun ret evs) s" and "event_next E (EvRun ret evs) f s = Some (pc', f', s')"
  shows "event_inv pc' s' \<and> kept s s'"
proof (cases evs)
  case Nil
  with assms(2,3) show ?thesis
    by (auto simp: event_inv_def pc_defs kept_def split: Option.bind_splits if_splits)
next
  case (Cons ev evs')
  with assms(3) have "map_option snd (DomainEventCallback E ev s) = Some s'" "pc' = EvRun ret evs'"
    by (auto split: Option.bind_splits)
  with assms(2) callback_section.section_safe [OF env_safeD [OF assms(1)], of s ev s'] show ?thesis
    by (intro event_section_moves [OF assms(2)]) (auto simp: event_inv_def pc_defs)
qed

lemma event_moves:
  assumes "env_safe E" and "event_inv pc s" and "event_next E pc f s = Some (pc', f', s')"
  shows "event_inv pc' s' \<and> kept s s'"
proof (cases pc)
  case EvRebuild
  from assms(2,3) [unfolded EvRebuild] show ?thesis by (rule event_rebuild_moves [OF assms(1)])
next
  case (EvCollect ids)
  from assms(2,3) [unfolded EvCollect] show ?thesis by (rule event_collect_moves [OF assms(1)])
next
  case (EvRun ret evs)
  from assms(2,3) [unfolded EvRun] show ?thesis by (rule event_run_moves [OF assms(1)])
next
  case EvList
  from assms(2,3) [unfolded EvList] show ?thesis by (rule event_list_moves)
next
  case EvCleanup
  with assms(3) have "cleanup_events E s = Some s'" "pc' = EvTop" by (auto split: Option.bind_splits)
  with cleanup_events_frame [of E s s'] assms(2) EvCleanup show ?thesis
    by (auto simp: event_inv_def pc_defs kept_def)
qed (use assms(2,3) in \<open>auto simp: event_inv_def pc_defs kept_def DomainEventsRegister_def notify_ready_def
      split: option.splits prod.splits if_splits Option.bind_splits\<close>)

lemma balloon_moves:
  assumes "env_safe E" and "event_inv epc s" and "balloon_next E pc s = Some (pc', s')"
  shows "event_inv epc s' \<and> kept s s'"
proof -
  have safe: "list_safe s" using assms(2) by (simp add: event_inv_def)
  note env = env_safeD [OF assms(1)]
  note sections = stats_section.section_safe [OF env safe] balloon_pass.section_safe [OF env safe]
  show ?thesis
    by (cases pc) (use assms(2,3) in \<open>auto simp: kept_def dest!: sections intro: event_inv_section
        dest: list_frame_kept [unfolded kept_def] split: Option.bind_splits\<close>)
qed

lemma event_stays_on: "event_next E pc f s = Some (pc', f', s') \<Longrightarrow> event_live pc \<Longrightarrow> pc' \<noteq> EvOff"
  by (induction E pc f s rule: event_next.induct)
    (auto simp: event_live_def split: Option.bind_splits option.splits prod.splits if_splits)

lemma balloon_stays_on: "balloon_next E pc s = Some (pc', s') \<Longrightarrow> balloon_live pc \<Longrightarrow> pc' \<noteq> BlOff"
  by (induction E pc s rule: balloon_next.induct) (auto simp: balloon_live_def split: Option.bind_splits if_splits)

text \<open>The order in which the main thread starts the others, and what its exit status means.\<close>

definition balloon_pending :: "mpc \<Rightarrow> bool" where
  "balloon_pending pc \<longleftrightarrow> (case pc of MStart \<Rightarrow> True | MEvent \<Rightarrow> True | MWait ts \<Rightarrow> True | MBalloon \<Rightarrow> True | _ \<Rightarrow> False)"

definition in_loop :: "mpc \<Rightarrow> bool" where
  "in_loop pc \<longleftrightarrow> pc = MLoop \<or> pc = MXchg \<or> pc = MUpdate \<or> pc = MSleep"

definition stopped :: "'w dstate \<Rightarrow> bool" where
  "stopped d \<longleftrightarrow> g_stopMemlinkd (mem d) \<noteq> 0"

definition order_inv :: "'w dstate \<Rightarrow> bool" where
  "order_inv d \<longleftrightarrow>
     (main_at d = MStart \<or> main_at d = MEvent \<longrightarrow> event_at d = EvOff) \<and>
     (balloon_pending (main_at d) \<or> event_at d = EvOff \<longrightarrow> balloon_at d = BlOff) \<and>
     (in_loop (main_at d) \<or> main_at d = MBalloon \<or> (\<exists>ts. main_at d = MWait ts) \<longrightarrow> event_at d \<noteq> EvOff) \<and>
     (balloon_at d \<noteq> BlOff \<longrightarrow> g_balloonEnable (cfg (mem d)) = 1) \<and>
     (main_ret d = 1 \<or> main_ret d = 0 \<and> stopped d) \<and>
     (\<forall>r. main_at d = MDone r \<longrightarrow> (r = 1 \<or> r = 0 \<and> stopped d) \<and> (event_at d = EvOff \<or> stopped d))"

definition daemon_inv :: "'w dstate \<Rightarrow> bool" where
  "daemon_inv d \<longleftrightarrow> event_inv (event_at d) (mem d) \<and> cfg_ok (cfg (mem d)) \<and>
     g_stopMemlinkd (mem d) \<in> {0, 1, 2, 15} \<and> order_inv d"

lemmas order_defs = order_inv_def balloon_pending_def in_loop_def stopped_def

lemma daemon_inv_init: "daemon_inv (init_dstate w)"
  using list_safe_init cfg_ok_init
  by (simp add: daemon_inv_def event_inv_def order_defs pc_defs init_dstate_def init_mstate_def)

text \<open>
  Changing the shared state, and moving the main thread: the stop flag may be set, never cleared,
  and a new position must agree with the threads that exist.
\<close>

lemma inv_mem:
  assumes "daemon_inv d" and "event_inv (event_at d) s" and "cfg s = cfg (mem d)"
    and "g_stopMemlinkd s = g_stopMemlinkd (mem d) \<or> g_stopMemlinkd s \<in> {1, 2, 15}"
  shows "daemon_inv (d\<lparr>mem := s\<rparr>)"
proof -
  have stop: "stopped d \<Longrightarrow> stopped (d\<lparr>mem := s\<rparr>)" using assms(4) by (auto simp: stopped_def)
  have "g_stopMemlinkd s \<in> {0, 1, 2, 15}" using assms(1,4) by (auto simp: daemon_inv_def)
  moreover have "order_inv (d\<lparr>mem := s\<rparr>)"
    using assms(1) [unfolded daemon_inv_def] assms(3) stop unfolding order_inv_def
    by (simp (no_asm_simp)) metis
  ultimately show ?thesis using assms(1-3) by (simp add: daemon_inv_def)
qed

lemma inv_section:
  assumes "daemon_inv d" and "list_safe s" and "list_frame (mem d) s"
  shows "daemon_inv (d\<lparr>mem := s\<rparr>)"
proof (rule inv_mem [OF assms(1)])
  show "event_inv (event_at d) s"
    by (rule event_inv_section [OF _ assms(2,3)]) (use assms(1) in \<open>simp add: daemon_inv_def\<close>)
qed (use assms(3) in \<open>simp_all add: list_frame_def\<close>)

lemma inv_world: "daemon_inv d \<Longrightarrow> daemon_inv (d\<lparr>mem := (mem d)\<lparr>world := w\<rparr>\<rparr>)"
  by (rule inv_mem) (simp_all add: daemon_inv_def)

lemma inv_local [simp]:
  "daemon_inv (d\<lparr>main_mask := b\<rparr>) = daemon_inv d" "daemon_inv (d\<lparr>handlers := h\<rparr>) = daemon_inv d"
  "daemon_inv (d\<lparr>main_fd := fd\<rparr>) = daemon_inv d" "daemon_inv (d\<lparr>init_flag := f\<rparr>) = daemon_inv d"
  by (simp_all add: daemon_inv_def order_defs)

lemma inv_main:
  assumes "daemon_inv d" and "pc \<notin> {MStart, MEvent}" and "balloon_pending pc \<longrightarrow> balloon_at d = BlOff"
    and "in_loop pc \<or> pc = MBalloon \<or> (\<exists>ts. pc = MWait ts) \<longrightarrow> event_at d \<noteq> EvOff" and "\<forall>r. pc \<noteq> MDone r"
  shows "daemon_inv (d\<lparr>main_at := pc\<rparr>)"
  using assms unfolding daemon_inv_def order_inv_def stopped_def by simp

lemma start_moves:
  assumes "daemon_inv d" and "main_at d = MStart"
  shows "daemon_inv (main_start E d)"
proof -
  obtain fd w1 where f: "Daemonize E (LogInit E (world (mem d))) = (fd, w1)" by fastforce
  obtain r w2 where r: "DaemonSetupSignals E w1 = (r, w2)" by fastforce
  obtain r2 g w3 where l: "LoadCfgFile E (cfg (mem d)) w2 = ((r2, g), w3)" by (metis surj_pair)
  have "cfg_ok g" using LoadCfgFile_result [OF l] assms(1) by (auto simp: daemon_inv_def)
  with f r l assms show ?thesis
    by (auto simp: main_start_def Let_def daemon_inv_def order_defs split: if_splits)
qed

lemma event_created:
  assumes "daemon_inv d" and "main_at d = MEvent" and "pc = MBack \<or> (\<exists>ts. pc = MWait ts)"
  shows "daemon_inv (d\<lparr>event_at := EvInit, main_at := pc\<rparr>)"
  using assms by (auto simp: daemon_inv_def event_inv_def order_defs pc_defs)

lemma event_creation_moves:
  assumes "daemon_inv d" and "main_at d = MEvent" and "main_next E MEvent d = Some d'"
  shows "daemon_inv d'"
proof -
  let ?s = "mem d"
  obtain r b w1 where c: "create_event E (main_mask d) (world ?s) = ((r, b), w1)" by (metis surj_pair)
  show ?thesis
  proof (cases "r < 0")
    case True
    with assms(3) c have "d' = d\<lparr>mem := ?s\<lparr>world := w1\<rparr>, main_mask := b, main_at := MBack\<rparr>" by simp
    with inv_world [OF assms(1)] show ?thesis by (auto intro!: inv_main simp: order_defs)
  next
    case False
    with assms(3) c obtain ts w2 where t: "wait_deadline E (g_initSemWaitTimeout (cfg ?s)) w1 = Some (ts, w2)"
      by (cases "wait_deadline E (g_initSemWaitTimeout (cfg ?s)) w1") (auto simp: Let_def)
    define x where "x = (case ts of None \<Rightarrow> ?s\<lparr>world := snd (SemDestroy E w2), g_stopMemlinkd := 1\<rparr>
      | Some t \<Rightarrow> ?s\<lparr>world := w2\<rparr>)"
    define pc where "pc = (case ts of None \<Rightarrow> MBack | Some t \<Rightarrow> MWait t)"
    have "d' = d\<lparr>mem := x, main_mask := b, event_at := EvInit, main_at := pc\<rparr>"
      using assms(3) c False t by (cases ts) (auto simp: wait_over_def Let_def x_def pc_def)
    moreover have "pc = MBack \<or> (\<exists>ts. pc = MWait ts)"
      "\<exists>w. x = ?s\<lparr>world := w\<rparr> \<or> x = ?s\<lparr>world := w, g_stopMemlinkd := 1\<rparr>"
      by (auto simp: x_def pc_def split: option.splits)
    moreover have "daemon_inv (d\<lparr>mem := ?s\<lparr>world := w\<rparr>\<rparr>)" "daemon_inv (d\<lparr>mem := ?s\<lparr>world := w, g_stopMemlinkd := 1\<rparr>\<rparr>)" for w
      by (rule inv_mem [OF assms(1)]; use assms(1) in \<open>simp add: daemon_inv_def\<close>)+
    ultimately show ?thesis using event_created [of "d\<lparr>mem := x, main_mask := b\<rparr>" pc] assms(2) by auto
  qed
qed

lemma main_wait_moves:
  assumes "daemon_inv d" and "main_at d = MWait ts" and "main_next E (MWait ts) d = Some d'"
  shows "daemon_inv d'"
proof -
  have on: "event_at d \<noteq> EvOff" "balloon_at d = BlOff" using assms(1,2) by (auto simp: daemon_inv_def order_defs)
  have late: "daemon_inv (d\<lparr>mem := (mem d)\<lparr>world := w, g_stopMemlinkd := 1\<rparr>\<rparr>)" for w
    by (rule inv_mem [OF assms(1)]) (use assms(1) in \<open>simp_all add: daemon_inv_def\<close>)
  obtain w where "d' = d\<lparr>mem := (mem d)\<lparr>world := w\<rparr>\<rparr> \<or>
      d' = d\<lparr>mem := (mem d)\<lparr>world := w, g_stopMemlinkd := 1\<rparr>, main_at := MBack\<rparr> \<or>
      d' = d\<lparr>mem := (mem d)\<lparr>world := w\<rparr>, main_at := MBalloon\<rparr>"
    using assms(3) by (auto simp: wait_over_def Let_def split: prod.splits if_splits)
  with on show ?thesis
    by (elim disjE) (auto intro!: inv_main inv_world [OF assms(1)] late simp: order_defs)
qed

lemma balloon_creation_moves:
  assumes "daemon_inv d" and "main_at d = MBalloon" and "main_next E MBalloon d = Some d'"
  shows "daemon_inv d'"
proof -
  have on: "event_at d \<noteq> EvOff" using assms(1,2) by (auto simp: daemon_inv_def order_defs)
  have "daemon_inv (d\<lparr>mem := (mem d)\<lparr>world := w\<rparr>, main_mask := b, balloon_at := BlTop, main_at := MLoop\<rparr>)"
    if "g_balloonEnable (cfg (mem d)) = 1" for w b
    using assms(1) that on unfolding daemon_inv_def by (auto simp: order_defs)
  moreover have "daemon_inv (d\<lparr>mem := (mem d)\<lparr>world := w\<rparr>, main_mask := b, main_at := MBack\<rparr>)"
    "daemon_inv (d\<lparr>main_at := MLoop\<rparr>)" for w b
    using on by (auto intro!: inv_main inv_world [OF assms(1)] assms(1) simp: order_defs)
  ultimately show ?thesis using assms(3) by (auto simp: Let_def split: prod.splits if_splits)
qed

lemma main_loop_moves:
  assumes "daemon_inv d" and "main_at d = MLoop" and "main_next E MLoop d = Some d'"
  shows "daemon_inv d'"
proof -
  have "daemon_inv (d\<lparr>main_ret := 0, main_at := MBack\<rparr>)" if "g_stopMemlinkd (mem d) \<noteq> 0"
    using assms(1) that unfolding daemon_inv_def by (auto simp: order_defs)
  moreover have "daemon_inv (d\<lparr>main_at := MXchg\<rparr>)"
    using assms(1,2) by (intro inv_main) (auto simp: daemon_inv_def order_defs)
  ultimately show ?thesis using assms(3) by (auto split: if_splits)
qed

lemma main_xchg_moves:
  assumes "daemon_inv d" and "main_at d = MXchg" and "main_next E MXchg d = Some d'"
  shows "daemon_inv d'"
proof -
  have "order_inv d" using assms(1) by (simp add: daemon_inv_def)
  moreover have "daemon_inv (d\<lparr>mem := (mem d)\<lparr>g_libvirtChange := 0\<rparr>\<rparr>)"
    by (rule inv_mem [OF assms(1)]) (use assms(1) in \<open>simp_all add: daemon_inv_def\<close>)
  ultimately show ?thesis using assms
    by (cases "g_libvirtChange (mem d) = 0") (auto intro!: inv_main simp: xchg_change_def order_defs)
qed

text \<open>A place at which the main thread runs one section of the list code and moves on.\<close>

lemma main_section_moves:
  assumes "daemon_inv d" and "list_safe s1" and "list_frame (mem d) s1" and "d' = d\<lparr>mem := s1, main_at := m\<rparr>"
    and "main_at d = MUpdate \<and> m = MSleep \<or> m = MFree \<or> m = MEnd"
  shows "daemon_inv d'"
proof -
  have "daemon_inv (d\<lparr>mem := s1\<rparr>)" by (rule inv_section [OF assms(1-3)])
  moreover have "m = MSleep \<Longrightarrow> event_at d \<noteq> EvOff" using assms(1,5) by (auto simp: daemon_inv_def order_defs)
  ultimately show ?thesis using assms(4,5) inv_main [of "d\<lparr>mem := s1\<rparr>" m]
    by (auto simp: balloon_pending_def in_loop_def)
qed

lemma main_moves:
  assumes "env_safe E" and "daemon_inv d" and "main_next E (main_at d) d = Some d'"
  shows "daemon_inv d'"
proof -
  note env = env_safeD [OF assms(1)]
  have safe: "list_safe (mem d)" using assms(2) by (simp add: daemon_inv_def event_inv_def)
  show ?thesis
  proof (cases "main_at d")
    case MSleep
    with assms(2,3) show ?thesis
      by (auto intro!: inv_main inv_world simp: Let_def daemon_inv_def order_defs split: Option.bind_splits)
  next
    case MUpdate
    with assms(3) update_section.section_safe [OF env safe] show ?thesis
      by (auto intro: main_section_moves [OF assms(2)] split: Option.bind_splits)
  next
    case MBack
    with assms(3) safe back_section.section_safe [OF env safe] show ?thesis
      by (auto intro: main_section_moves [OF assms(2)] simp: Let_def split: Option.bind_splits if_splits)
  next
    case MFree
    with assms(3) free_section.section_safe [OF env safe] show ?thesis
      by (auto intro: main_section_moves [OF assms(2)] split: Option.bind_splits)
  next
    case MEnd
    then obtain w where "d' = d\<lparr>mem := (mem d)\<lparr>g_stopMemlinkd := 1, world := w\<rparr>, main_at := MDone (main_ret d)\<rparr>"
      using assms(3) by (auto simp: Let_def)
    with assms(2) show ?thesis by (auto simp: daemon_inv_def order_defs)
  qed (use assms start_moves [OF assms(2)] event_creation_moves [OF assms(2)] main_wait_moves [OF assms(2)]
      balloon_creation_moves [OF assms(2)] main_loop_moves [OF assms(2)] main_xchg_moves [OF assms(2)] in auto)
qed

lemma inv_event:
  assumes "daemon_inv d" and "event_inv pc s" and "kept (mem d) s" and "event_at d \<noteq> EvOff" and "pc \<noteq> EvOff"
  shows "daemon_inv (d\<lparr>event_at := pc, init_flag := f, mem := s\<rparr>)"
  using assms unfolding daemon_inv_def kept_def order_inv_def stopped_def by auto

lemma inv_balloon:
  assumes "daemon_inv d" and "event_inv (event_at d) s" and "kept (mem d) s" and "balloon_at d \<noteq> BlOff" and "pc \<noteq> BlOff"
  shows "daemon_inv (d\<lparr>balloon_at := pc, mem := s\<rparr>)"
  using assms unfolding daemon_inv_def kept_def order_inv_def stopped_def by auto

interpretation daemon: daemon_invariant env_safe daemon_inv
proof
  fix E :: "'w ext" and d :: "'w dstate" and epc f bpc s
  assume *: "env_safe E" "daemon_inv d"
  then have ev: "event_inv (event_at d) (mem d)" by (simp add: daemon_inv_def)
  show "daemon_inv (d\<lparr>event_at := epc, init_flag := f, mem := s\<rparr>)"
    if "event_next E (event_at d) (init_flag d) (mem d) = Some (epc, f, s)" "event_live (event_at d)"
    using event_moves [OF *(1) ev that(1)] event_stays_on [OF that] that(2)
    by (intro inv_event [OF *(2)]) (auto simp: event_live_def)
  show "daemon_inv (d\<lparr>balloon_at := bpc, mem := s\<rparr>)"
    if "balloon_next E (balloon_at d) (mem d) = Some (bpc, s)" "balloon_live (balloon_at d)"
    using balloon_moves [OF *(1) ev that(1)] balloon_stays_on [OF that] that(2)
    by (intro inv_balloon [OF *(2)]) (auto simp: balloon_live_def)
next
  fix d :: "'w dstate" and sig :: int
  assume *: "daemon_inv d" "handlers d" "sig \<in> {1, 2, 15}"
  show "daemon_inv (d\<lparr>mem := SignalHandler sig (mem d)\<rparr>)"
    by (rule inv_mem [OF *(1)]) (use * in \<open>simp_all add: SignalHandler_def daemon_inv_def\<close>)
qed (rule daemon_inv_init, erule (1) main_moves)

end
