(* ===== verification/Daemon_Props.thy ===== *)
theory Daemon_Props
  imports Daemon_Inv
begin

text \<open>
  The properties of the whole daemon: what always holds, that no thread can fault, that a stop
  request ends the process, and the one interleaving that the unprotected connection handle allows.
\<close>

section \<open>No faults\<close>

text \<open>
  The documented behaviour that progress needs: \<open>strtok_s\<close>, the clock and the listing of domains, in
  addition to what safety needs.
\<close>

definition env_live :: "'w ext \<Rightarrow> bool" where
  "env_live E \<longleftrightarrow> env_safe E \<and> strtok_s_ok E \<and> clock_ok E \<and> listing_ok E"

lemma env_liveD:
  assumes "env_live E"
  shows "env_safe E" and "calloc_ok E" and "strtok_s_ok E" and "clock_ok E" and "listing_ok E"
  using assms by (simp_all add: env_live_def env_safe_def)

lemmas runs = bind_eq_None_conv

declare not_None_eq [simp del]

lemma SleepApprox_runs:
  assumes "clock_ok E" and "in_s32 n"
  shows "SleepApprox E n w \<noteq> None"
proof -
  obtain r s us w1 where g: "gettimeofday E w = ((r, s, us), w1)" by (metis surj_pair)
  note us = clock_okD(1,2) [OF assms(1) g]
  have "borrow_ns n (- us * 1000) \<noteq> None"
  proof (cases "us = 0")
    case True
    then show ?thesis by (simp add: borrow_ns.simps)
  next
    case False
    with us assms(2) have "borrow_ns n (- us * 1000) = Some (n - 1, - us * 1000 + 1000000000)"
      by (intro borrow_ns_once) (simp_all add: cint)
    then show ?thesis by simp
  qed
  then show ?thesis using g us by (auto simp: SleepApprox_def cint)
qed

lemma collect_ids_runs:
  assumes "listing_ok E"
  shows "collect_ids E s \<noteq> None"
proof (cases "g_libvirtConn s")
  case None
  then show ?thesis by (simp add: collect_ids_def)
next
  case (Some c)
  obtain domNum w1 where n: "virConnectNumOfDomains E c (world s) = (domNum, w1)" by fastforce
  obtain ok w2 where a: "alloc_ok E w1 = (ok, w2)" by fastforce
  obtain ret ids w3 where l: "virConnectListDomains E c domNum w2 = ((ret, ids), w3)" by (metis surj_pair)
  have "ret < 0 \<or> ret \<le> domNum" using assms l unfolding listing_ok_def by (metis linorder_not_less)
  then show ?thesis using Some n a l by (auto simp: collect_ids_def Let_def)
qed

lemma callback_runs:
  assumes "env_live E" and "list_safe s" and "in_s32 (count s + 1)"
  shows "DomainEventCallback E ev s \<noteq> None"
proof -
  note e = env_liveD [OF assms(1)]
  have "ProcessDomainEvent E did n t (s\<lparr>world := w\<rparr>) \<noteq> None" for did n t w
    using event_reg [OF e(2,3), of "s\<lparr>world := w\<rparr>" did n t] list_safeD [OF assms(2)] assms(3) by auto
  then show ?thesis by (simp add: DomainEventCallback_def Let_def runs split: option.split prod.split)
qed

lemma event_runs_on:
  assumes "env_live E" and "event_inv pc s" and "in_s32 (count s + 1)"
  shows "event_next E pc f s \<noteq> None"
proof -
  note e = env_liveD [OF assms(1)]
  have safe: "list_safe s" using assms(2) by (simp add: event_inv_def)
  note s = list_safeD [OF safe]
  have sleep: "SleepApprox E 1 w \<noteq> None" for w by (rule SleepApprox_runs [OF e(4)]) (simp add: cint)
  show ?thesis
  proof (cases pc)
    case EvOpen
    then show ?thesis using sleep by (simp add: runs split: option.split prod.split)
  next
    case EvRebuild
    then have "\<not> requestLock s" using assms(2) by (simp add: event_inv_def pc_defs)
    moreover have "FreeAllVM E (s\<lparr>requestLock := True\<rparr>) \<noteq> None"
      using FreeAllVM_runs [of "s\<lparr>requestLock := True\<rparr>" E] s(1,2) by auto
    ultimately show ?thesis using EvRebuild by (auto simp: mutex)
  next
    case EvList
    then show ?thesis using collect_ids_runs [OF e(5), of s] by auto
  next
    case (EvCollect ids)
    have "FindAddVMToList E i s \<noteq> None" for i using find_add.runs [OF e(3) s(1,2) assms(3)] by auto
    moreover have "requestLock s" using assms(2) EvCollect by (simp add: event_inv_def pc_defs)
    ultimately show ?thesis using EvCollect by (cases ids) (simp_all add: mutex runs)
  next
    case (EvRun ret evs)
    then show ?thesis
      using callback_runs [OF assms(1) safe assms(3)] sleep by (cases evs) (simp_all add: runs split: prod.split)
  next
    case EvCleanup
    then show ?thesis using sleep by (simp add: cleanup_events_def Let_def runs)
  qed (auto simp: Let_def split: option.splits prod.splits)
qed

lemma cfg_ok_percents: "cfg_ok g \<Longrightarrow> percents_ok g"
  by (simp add: cfg_ok_def percents_ok_def)

lemma balloon_section_runs:
  assumes "list_safe s" and "cfg_ok (cfg s)"
  shows "balloon_section E s \<noteq> None"
proof -
  note s = list_safeD [OF assms(1)]
  obtain t where t: "vmlist_inv t" "list_frame (s\<lparr>lock := True\<rparr>) t" "vms t = map prepared (vms s)"
    "balloon_section E s = do { u \<leftarrow> sweep (balloon_one E (cfg s)) t; unlock_vmlist u }"
    by (rule balloon_section_split [OF s(1,2)])
  have "\<forall>v \<in> set (vms s). vm_shared v" using heap_vms [OF s(1), of vm_shared] s(4) by simp
  then have "\<forall>v \<in> set (vms t). percents_ok (cfg s) \<and> vm_sane v"
    using cfg_ok_percents [OF assms(2)] t(3) by (auto simp: vm_shared_def intro: vm_sized_sane)
  from balloon_total.sweep_runs [OF t(1) this] obtain u where u: "sweep (balloon_one E (cfg s)) t = Some u" by blast
  have "lock u" using balloon_step.sweep_ok(2) [OF t(1) u] t(2) by (simp add: list_frame_def)
  with t(4) u show ?thesis by (simp add: mutex)
qed

lemma balloon_runs_on:
  assumes "env_live E" and "list_safe s" and "cfg_ok (cfg s)"
  shows "balloon_next E pc s \<noteq> None"
proof (cases pc)
  case BlStats
  note s = list_safeD [OF assms(2)]
  have "vmlist_inv (s\<lparr>lock := True\<rparr>)" using s(1) by simp
  from GetAllDomainsStats_inv [OF this, of E] obtain u where
    "GetAllDomainsStats E (s\<lparr>lock := True\<rparr>) = Some u" "list_frame (s\<lparr>lock := True\<rparr>) u" by blast
  then show ?thesis using BlStats s(2) by (simp add: UpdateAllVmInfoAndMemoryStats_def mutex list_frame_def)
next
  case BlSection
  then show ?thesis using balloon_section_runs [OF assms(2,3), of E] by auto
next
  case BlSleep
  have "SleepApprox E 2 (world s) \<noteq> None"
    by (rule SleepApprox_runs [OF env_liveD(4) [OF assms(1)]]) (simp add: cint)
  then show ?thesis using BlSleep by auto
qed simp_all

lemma BalloonBackVmMem_runs:
  assumes "vmlist_inv s" and "\<not> lock s"
  shows "BalloonBackVmMem E s \<noteq> None"
proof -
  have inv: "vmlist_inv (s\<lparr>lock := True\<rparr>)" using assms(1) by simp
  obtain u where u: "sweep (back_one E) (s\<lparr>lock := True\<rparr>) = Some u" using back_step.sweep_runs [OF inv] by auto
  have "lock u" using back_step.sweep_ok(2) [OF inv u] by (simp add: list_frame_def)
  with u assms(2) show ?thesis by (simp add: BalloonBackVmMem_def mutex)
qed

lemma poll_seconds: "100 \<le> p \<Longrightarrow> p \<le> 6000 \<Longrightarrow> in_s32 (p sdiv 1000)"
proof -
  assume "100 \<le> p" "p \<le> 6000"
  then have "p sdiv 1000 = p div 1000" "0 \<le> p div 1000" "p div 1000 \<le> 6"
    by (simp_all add: signed_divide_int_def)
  then show "in_s32 (p sdiv 1000)" by (simp add: in_s32_def)
qed

lemma main_runs_on:
  assumes "env_live E" and "daemon_inv d"
  shows "main_next E (main_at d) d \<noteq> None"
proof -
  note e = env_liveD [OF assms(1)]
  have safe: "list_safe (mem d)" and cfg: "cfg_ok (cfg (mem d))"
    using assms(2) by (simp_all add: daemon_inv_def event_inv_def)
  note s = list_safeD [OF safe]
  show ?thesis
  proof (cases "main_at d")
    case MEvent
    have "wait_deadline E (g_initSemWaitTimeout (cfg (mem d))) w \<noteq> None" for w
    proof -
      obtain r sec us w1 where g: "gettimeofday E w = ((r, sec, us), w1)" by (metis surj_pair)
      have "\<exists>a b. sem_deadline sec us (g_initSemWaitTimeout (cfg (mem d))) = Some (a, b)"
        using sem_deadline_value [OF clock_okD [OF e(4) g], of "g_initSemWaitTimeout (cfg (mem d))"] cfg
        unfolding cfg_ok_def in_s32_def by auto
      then show ?thesis using g by (auto simp: wait_deadline_def)
    qed
    then show ?thesis using MEvent by (simp add: Let_def runs split: prod.split)
  next
    case MUpdate
    then show ?thesis using UpdateAllVmInfo_runs [OF s(1,2), of E] by auto
  next
    case MSleep
    have "SleepApprox E (g_hostInfoPollTimeMs (cfg (mem d)) sdiv 1000) (world (mem d)) \<noteq> None"
      by (rule SleepApprox_runs [OF e(4) poll_seconds]) (use cfg in \<open>simp_all add: cfg_ok_def\<close>)
    then show ?thesis using MSleep by auto
  next
    case MBack
    then show ?thesis using BalloonBackVmMem_runs [OF s(1,2), of E] by (simp add: Let_def runs)
  next
    case MFree
    then show ?thesis using FreeAllVM_runs [OF s(1,2), of E] by auto
  qed (auto simp: Let_def split: prod.splits)
qed

declare not_None_eq [simp]

section \<open>What always holds\<close>




section \<open>Stopping\<close>

text \<open>How far the main thread is from its return, once it has seen the stop request.\<close>

fun steps_left :: "mpc \<Rightarrow> nat" where
  "steps_left MXchg = 7"
| "steps_left MUpdate = 6"
| "steps_left MSleep = 5"
| "steps_left MLoop = 4"
| "steps_left MBack = 3"
| "steps_left MFree = 2"
| "steps_left MEnd = 1"
| "steps_left pc = 0"

definition leaving :: "'w dstate \<Rightarrow> bool" where
  "leaving d \<longleftrightarrow> daemon_inv d \<and> stopped d \<and> event_at d \<noteq> EvExit \<and>
     (in_loop (main_at d) \<or> main_ret d = 0 \<and> main_at d \<in> {MBack, MFree, MEnd, MDone 0}) \<and>
     (main_at d = MEnd \<or> main_at d = MDone 0 \<longrightarrow> domainsListHead (mem d) = [])"

lemma leaving_step:
  assumes "env_live E" and "leaving d" and "main_at d \<noteq> MDone 0"
  shows "\<exists>d'. daemon_step E d d' \<and> leaving d' \<and> steps_left (main_at d') < steps_left (main_at d)"
proof -
  have inv: "daemon_inv d" and stop: "g_stopMemlinkd (mem d) \<noteq> 0" using assms(2) by (simp_all add: leaving_def stopped_def)
  obtain d' where d': "main_next E (main_at d) d = Some d'" using main_runs_on [OF assms(1) inv] by blast
  have up: "process_up d" using assms(2,3) by (auto simp: leaving_def process_up_def in_loop_def)
  have inv': "daemon_inv d'" by (rule main_moves [OF env_liveD(1) [OF assms(1)] inv d'])
  have safe: "list_safe (mem d)" using inv by (simp add: daemon_inv_def event_inv_def)
  note s = list_safeD [OF safe]
  have frame: "g_stopMemlinkd s1 = g_stopMemlinkd (mem d)"
    if "UpdateAllVmInfo E (mem d) = Some s1 \<or> BalloonBackVmMem E (mem d) = Some s1 \<or> FreeAllVM E (mem d) = Some s1" for s1
    using that update_section.keeps_frame [of E "mem d" s1] back_section.keeps_frame [of E "mem d" s1]
      free_section.keeps_frame [of E "mem d" s1] env_safeD [OF env_liveD(1) [OF assms(1)]] safe
    by (auto simp: list_frame_def)
  have empty: "domainsListHead s1 = []" if "FreeAllVM E (mem d) = Some s1" for s1
    using FreeAllVM_all [OF s(1,3,2), of E] that by auto
  have "leaving d' \<and> steps_left (main_at d') < steps_left (main_at d)"
  proof (cases "main_at d")
    case MBack
    with d' frame inv' stop assms(2) show ?thesis
      by (auto simp: leaving_def stopped_def in_loop_def Let_def split: if_splits Option.bind_splits)
  next
    case MXchg
    with d' inv' stop assms(2) show ?thesis
      by (cases "g_libvirtChange (mem d) = 0") (auto simp: leaving_def stopped_def in_loop_def xchg_change_def)
  qed (use d' frame empty inv' stop assms(2,3) in
      \<open>auto simp: leaving_def stopped_def in_loop_def Let_def split: Option.bind_splits\<close>)
  with daemon_step.main [OF up d'] show ?thesis by blast
qed

lemma leaving_ends:
  assumes "env_live E" and "leaving d"
  shows "\<exists>n d'. n \<le> steps_left (main_at d) \<and> (daemon_step E ^^ n) d d' \<and> main_at d' = MDone 0 \<and> leaving d'"
  using assms(2)
proof (induction "steps_left (main_at d)" arbitrary: d rule: less_induct)
  case less
  show ?case
  proof (cases "main_at d = MDone 0")
    case True
    with less.prems show ?thesis by (intro exI [of _ 0] exI [of _ d]) simp
  next
    case False
    from leaving_step [OF assms(1) less.prems False] obtain d1 where
      d1: "daemon_step E d d1" "leaving d1" "steps_left (main_at d1) < steps_left (main_at d)" by blast
    from less.hyps [OF d1(3,2)] obtain n d' where n: "n \<le> steps_left (main_at d1)"
      "(daemon_step E ^^ n) d1 d'" "main_at d' = MDone 0" "leaving d'" by blast
    with d1(1,3) have "(daemon_step E ^^ Suc n) d d'" by (intro relpowp_Suc_I2)
    with n d1(3) show ?thesis by (intro exI [of _ "Suc n"] exI [of _ d']) simp
  qed
qed


end
