(* ===== verification/Daemon_Runs.thy ===== *)
theory Daemon_Runs
  imports Daemon_Props
begin

text \<open>
  Concrete executions: a scheduler that runs a given interleaving, two executions of the daemon on a
  concrete environment, what they show, and the instances of the theorems on them.
\<close>

section \<open>Schedules\<close>

datatype sched = Main_T | Event_T | Balloon_T | Signal_T int

fun sched_step :: "'w ext \<Rightarrow> sched \<Rightarrow> 'w dstate \<Rightarrow> 'w dstate option" where
  "sched_step E Main_T d = (if process_up d then main_next E (main_at d) d else None)"
| "sched_step E Event_T d =
     (if process_up d \<and> event_live (event_at d) then
        map_option (\<lambda>(pc, f, s). d\<lparr>event_at := pc, init_flag := f, mem := s\<rparr>)
          (event_next E (event_at d) (init_flag d) (mem d))
      else None)"
| "sched_step E Balloon_T d =
     (if process_up d \<and> balloon_live (balloon_at d) then
        map_option (\<lambda>(pc, s). d\<lparr>balloon_at := pc, mem := s\<rparr>) (balloon_next E (balloon_at d) (mem d))
      else None)"
| "sched_step E (Signal_T sig) d =
     (if process_up d \<and> handlers d \<and> (sig = 1 \<or> sig = 2 \<or> sig = 15) \<and> \<not> main_mask d sig
      then Some (d\<lparr>mem := SignalHandler sig (mem d)\<rparr>) else None)"

fun sched_run :: "'w ext \<Rightarrow> sched list \<Rightarrow> 'w dstate \<Rightarrow> 'w dstate option" where
  "sched_run E [] d = Some d"
| "sched_run E (x # xs) d = do { d1 \<leftarrow> sched_step E x d; sched_run E xs d1 }"

lemma sched_step_sound: "sched_step E x d = Some d' \<Longrightarrow> daemon_step E d d'"
  by (cases x) (auto intro: daemon_step.intros split: if_splits)

lemma sched_run_reach: "sched_run E xs d = Some d' \<Longrightarrow> daemon_reach E d \<Longrightarrow> daemon_reach E d'"
proof (induction xs arbitrary: d)
  case Nil
  then show ?case by simp
next
  case (Cons x xs)
  then obtain d1 where d1: "sched_step E x d = Some d1" "sched_run E xs d1 = Some d'" by (auto split: Option.bind_splits)
  from daemon_reach.step [OF Cons.prems(2) sched_step_sound [OF d1(1)]] show ?case by (rule Cons.IH [OF d1(2)])
qed

section \<open>The unprotected connection\<close>

text \<open>
  An environment in which libvirtd accepts connections but no connection stays alive; the pid file
  can be written and the configuration file is empty.
\<close>

definition race_ext :: "ref_world ext" where
  "race_ext = dead_ext\<lparr>write_fd := (\<lambda>_ t w. (int (length t), w)), read_file := (\<lambda>_ w. (Some [], w))\<rparr>"

lemma race_run:
  "map_option (\<lambda>d. (main_at d, event_at d, balloon_at d, g_libvirtConn (mem d)))
     (sched_run race_ext (replicate 4 Main_T @ [Balloon_T] @ replicate 14 Event_T) (init_dstate (0, []))) =
   Some (MLoop, EvClosed, BlStats, Some 0)"
  by code_simp

lemma race_state:
  obtains d where "daemon_reach race_ext d" "main_at d = MLoop" "event_at d = EvClosed" "balloon_at d = BlStats"
    "g_libvirtConn (mem d) = Some 0"
proof -
  from race_run obtain d where r: "sched_run race_ext (replicate 4 Main_T @ [Balloon_T] @ replicate 14 Event_T)
      (init_dstate (0, [])) = Some d" and
    v: "(main_at d, event_at d, balloon_at d, g_libvirtConn (mem d)) = (MLoop, EvClosed, BlStats, Some 0)" by auto
  from sched_run_reach [OF r daemon_reach.start] show ?thesis by (rule that) (use v in simp_all)
qed

lemma race_env_live: "env_live race_ext"
  by (simp add: env_live_def env_safe_def calloc_ok_def sizes_documented_def strtok_s_ok_def clock_ok_def
      listing_ok_def race_ext_def dead_ext_def ref_ext_def in_s32_def)


section \<open>Instances\<close>



lemma stop_run:
  "map_option (\<lambda>d. (main_at d, event_at d, g_stopMemlinkd (mem d)))
     (sched_run race_ext (replicate 4 Main_T @ [Signal_T 15]) (init_dstate (0, []))) = Some (MLoop, EvInit, 15)"
  by code_simp


text \<open>An environment with one running domain: it is added, and the balloon thread takes its statistics.\<close>

definition vm_ext :: "ref_world ext" where
  "vm_ext = list_ext\<lparr>write_fd := (\<lambda>_ t w. (int (length t), w)), read_file := (\<lambda>_ w. (Some [], w))\<rparr>"

lemma vm_env_live: "env_live vm_ext"
  by (auto simp: env_live_def env_safe_def calloc_ok_def sizes_documented_def strtok_s_ok_def clock_ok_def
      listing_ok_def vm_ext_def list_ext_def demo_ext_def ref_ext_def in_s32_def Let_def split: if_splits)

lemma vm_run:
  "map_option (\<lambda>d. (balloon_at d, map (\<lambda>v. (memory v, domid v)) (vms (mem d))))
     (sched_run vm_ext (replicate 4 Main_T @ replicate 9 Event_T @ replicate 2 Balloon_T) (init_dstate (0, []))) =
   Some (BlSection, [(4194304, 8)])"
  by code_simp

lemma vm_state:
  obtains d v where "daemon_reach vm_ext d" "balloon_at d = BlSection" "vms (mem d) = [v]" "memory v = 4194304"
proof -
  from vm_run obtain d where r: "sched_run vm_ext (replicate 4 Main_T @ replicate 9 Event_T @ replicate 2 Balloon_T)
      (init_dstate (0, [])) = Some d" and
    v: "balloon_at d = BlSection" "map (\<lambda>v. (memory v, domid v)) (vms (mem d)) = [(4194304, 8)]" by auto
  from v(2) obtain u where "vms (mem d) = [u]" "memory u = 4194304" by auto
  with sched_run_reach [OF r daemon_reach.start] v(1) show ?thesis by (rule that)
qed



end
