(* ===== verification/Exit_Race.thy ===== *)
theory Exit_Race
  imports Daemon_Runs
begin

text \<open>
  The way out against a pass in flight. \<open>main\<close> does not wait for the balloon thread: the memory is given
  back (\<open>BalloonBackVmMem\<close>) in one section of the list mutex and the records are freed in a later one,
  and the balloon thread may run the second half of a pass in between.
\<close>

section \<open>A calm guest\<close>

text \<open>One running domain of 8 GiB, a quarter of it in use; libvirt accepts every request.\<close>

definition calm_record :: vir_record where
  "calm_record = \<lparr>rec_dom = 4, rec_params =
     [\<lparr>pfield = ''state.state'', praw = 1\<rparr>, \<lparr>pfield = ''balloon.current'', praw = 8388608\<rparr>,
      \<lparr>pfield = ''balloon.maximum'', praw = 8388608\<rparr>, \<lparr>pfield = ''balloon.available'', praw = 8388608\<rparr>,
      \<lparr>pfield = ''balloon.usable'', praw = 6291456\<rparr>]\<rparr>"

definition calm_ext :: "ref_world ext" where
  "calm_ext = vm_ext\<lparr>virDomainGetID := (\<lambda>_ w. (8, w)),
     virDomainGetInfo := (\<lambda>_ w. ((0, \<lparr>info_state = 1, info_maxMem = 8388608, info_memory = 8388608\<rparr>), w)),
     virConnectGetAllDomainStats := (\<lambda>_ w. ((1, [calm_record]), w))\<rparr>"

lemmas calm_ext_defs = calm_ext_def vm_ext_def list_ext_def demo_ext_def ref_ext_def

lemma calm_env_live: "env_live calm_ext"
  by (auto simp: env_live_def env_safe_def calloc_ok_def sizes_documented_def strtok_s_ok_def clock_ok_def
      listing_ok_def calm_ext_defs calm_record_def in_s32_def Let_def split: if_splits)

lemma calm_observes: "observes calm_ext snd"
  by (simp add: observes_def calm_ext_defs)

lemma calm_sleep: "SleepApprox calm_ext 2 w = Some w"
  by (simp add: SleepApprox_def calm_ext_defs borrow_ns.simps ck64_def in_s64_def)

lemma calm_quiet [simp]:
  "close_fd calm_ext fd w = w" "unlink calm_ext f w = w" "LogExit calm_ext w = w"
  by (simp_all add: calm_ext_defs LogExit_def)

text \<open>The record of the domain with its counter at \<open>n\<close>, before and after the statistics are read.\<close>

definition calm_rec :: "int \<Rightarrow> VirtualMachineInfo \<Rightarrow> bool" where
  "calm_rec n v \<longleftrightarrow> needBalloonFlag v = n \<and> \<not> ballooning v \<and> \<not> ballooningDown v \<and> \<not> incompleteBalloon v \<and>
     \<not> lockall v \<and> vdom v = Some 4 \<and> domid v = 8 \<and> refcount v = 1 \<and> memparam v = zero_params \<and>
     memstat (clear_stats v) = zero_stats"

definition calm_seen :: "VirtualMachineInfo \<Rightarrow> VirtualMachineInfo" where
  "calm_seen v = v\<lparr>memory := 8388608, currentMem := 8388608, state := 1, memstat := calm_stat, enable_fpr := False\<rparr>"

lemma calm_params:
  assumes "calm_rec n v"
  shows "fold apply_param (rec_params calm_record) (clear_stats v) = calm_seen v"
  using assms
  by (cases v; cases "memstat v")
    (simp add: calm_rec_def calm_record_def calm_seen_def clear_stats_def apply_param_def value_ul_def value_i_def
      calm_stat_def zero_stats_def wrap16_def wrap32_def Let_def)

lemma calm_seen_rec: "calm_rec n v \<Longrightarrow> calm_rec n (calm_seen v)"
  by (auto simp: calm_rec_def calm_seen_def clear_stats_def calm_stat_def zero_stats_def)

lemma calm_prepared:
  assumes "calm_rec n v" and "0 < n"
  shows "mark_incomplete (calm_seen v) = calm_seen v" "record_running (calm_seen v) = calm_seen v"
  using assms
  by (simp_all add: mark_incomplete_def record_running_def RecordPressure_def calm_seen_def calm_rec_def)

lemma calm_balloon_one:
  assumes "calm_rec n v" and "0 < n" and "n < 20"
  shows "balloon_one calm_ext init_globals (calm_seen v) w =
    (if n < 19 then Some ((calm_seen v)\<lparr>needBalloonFlag := n + 1\<rparr>, w)
     else Some ((calm_seen v)\<lparr>needBalloonFlag := 0, balloonTarget := 4194304, ballooning := True,
            ballooningDown := True\<rparr>, (fst w, snd w @ [(Some 4, 4194304)])))"
proof -
  let ?v = "calm_seen v"
  note r = assms(1) [unfolded calm_rec_def]
  have fl: "balloon_flags_ok ?v" using r assms(2,3) by (simp add: balloon_flags_ok_def calm_seen_def)
  have va: "\<not> CheckVmMemoryStat (Some ?v) < 0"
    using calm_valid by (simp add: stats_valid_def CheckVmMemoryStat_iff calm_seen_def)
  have "load_of ?v = Low" by (rule calm_load) (simp add: calm_seen_def)
  then have n: "n + 1 = tick (load_of ?v) (needBalloonFlag ?v)" using r assms(2) by (simp add: calm_seen_def)
  have "percents_ok init_globals" by (simp add: percents_ok_def init_globals_def)
  moreover have "sizes_ok ?v" using r
    by (simp add: sizes_ok_def guestFree_def calm_seen_def calm_stat_def zero_stats_def zero_params_def)
  ultimately have "balloon_target init_globals ?v = Some (ideal_target init_globals ?v)"
    by (rule balloon_target_ideal)
  moreover have "ideal_target init_globals ?v = 4194304" using r
    by (simp add: ideal_target_def guestFree_def calm_seen_def calm_stat_def init_globals_def zero_stats_def zero_params_def)
  moreover have "balloon_one calm_ext init_globals ?v w = DoBallooning calm_ext init_globals ?v w"
    using r by (simp add: balloon_one_def calm_seen_def)
  moreover have "vdom ?v = Some 4" using r by (simp add: calm_seen_def)
  ultimately show ?thesis using DoBallooning_tick [OF fl va n, of calm_ext init_globals w] assms(3)
    by (simp add: Let_def calm_ext_defs)
qed

section \<open>Nineteen passes\<close>

definition calm_state :: "int \<Rightarrow> ref_world mstate \<Rightarrow> bool" where
  "calm_state n s \<longleftrightarrow> g_stopMemlinkd s = 0 \<and> g_libvirtConn s = Some 0 \<and> cfg s = init_globals \<and>
     domainsListHead s = [11] \<and> count s = 1 \<and> \<not> lock s \<and> world s = (0, []) \<and>
     (\<exists>v. vmheap s 11 = Some v \<and> calm_rec n v)"

lemma calm_stats_step:
  assumes "g_libvirtConn s = Some 0" "domainsListHead s = [11]" "\<not> lock s" "vmheap s 11 = Some v" "calm_rec n v"
  shows "UpdateAllVmInfoAndMemoryStats calm_ext s = Some (s\<lparr>vmheap := (vmheap s)(11 \<mapsto> calm_seen v)\<rparr>)"
proof -
  have "word_of_int (domid (clear_stats v)) = (8 :: 32 word)" using assms(5) by (simp add: calm_rec_def clear_stats_def)
  with assms calm_params [OF assms(5)] show ?thesis
    by (simp add: UpdateAllVmInfoAndMemoryStats_def GetAllDomainsStats_def ClearAllDomainStats_def sweep_def
        on_vm_def mutex GetOneDomainStats_def GetVMByDom_def calm_ext_defs calm_record_def)
qed

lemma calm_section_step:
  assumes "cfg s = init_globals" "domainsListHead s = [11]" "\<not> lock s" "vmheap s 11 = Some (calm_seen v)"
    "calm_rec n v" "0 < n" "n < 20" "balloon_one calm_ext init_globals (calm_seen v) (world s) = Some (v', w')"
  shows "balloon_section calm_ext s = Some (s\<lparr>vmheap := (vmheap s)(11 \<mapsto> v'), world := w'\<rparr>)"
  using assms calm_prepared [OF assms(5,6)]
  by (simp add: balloon_section_def BalloonMainLoop_def sweep_def on_vm_def mutex)

definition calm_daemon :: "int \<Rightarrow> ref_world dstate \<Rightarrow> bool" where
  "calm_daemon n d \<longleftrightarrow> main_at d = MLoop \<and> event_at d = EvAlive \<and> balloon_at d = BlTop \<and>
     handlers d \<and> \<not> main_mask d 15 \<and> calm_state n (mem d)"

lemma sched_run_append:
  "sched_run E (xs @ ys) d = do { d1 \<leftarrow> sched_run E xs d; sched_run E ys d1 }"
  by (induction xs arbitrary: d) (simp_all split: Option.bind_split)

text \<open>Half a pass: to the end of the statistics, or from there to the top of the loop.\<close>

definition half_pass :: "sched list" where
  "half_pass = [Balloon_T, Balloon_T]"

lemmas thread_up = process_up_def event_live_def balloon_live_def

lemma calm_half:
  assumes "calm_daemon n d"
  obtains v where "calm_rec n v" "vmheap (mem d) 11 = Some v"
    "sched_run calm_ext half_pass d =
       Some (d\<lparr>balloon_at := BlSection, mem := (mem d)\<lparr>vmheap := (vmheap (mem d))(11 \<mapsto> calm_seen v)\<rparr>\<rparr>)"
proof -
  from assms obtain v where v: "vmheap (mem d) 11 = Some v" "calm_rec n v"
    by (auto simp: calm_daemon_def calm_state_def)
  moreover have "sched_run calm_ext half_pass d =
      Some (d\<lparr>balloon_at := BlSection, mem := (mem d)\<lparr>vmheap := (vmheap (mem d))(11 \<mapsto> calm_seen v)\<rparr>\<rparr>)"
    using assms v calm_stats_step [of "mem d" v n]
    by (simp add: calm_daemon_def calm_state_def thread_up half_pass_def)
  ultimately show ?thesis using that by blast
qed

lemma calm_round:
  assumes "calm_daemon n d" and "0 < n" and "n < 19"
  shows "\<exists>d'. sched_run calm_ext (half_pass @ half_pass) d = Some d' \<and> calm_daemon (n + 1) d'"
proof -
  from calm_half [OF assms(1)] obtain v where v: "calm_rec n v" "vmheap (mem d) 11 = Some v"
    "sched_run calm_ext half_pass d =
       Some (d\<lparr>balloon_at := BlSection, mem := (mem d)\<lparr>vmheap := (vmheap (mem d))(11 \<mapsto> calm_seen v)\<rparr>\<rparr>)" (is "_ = Some ?d1") .
  let ?v = "(calm_seen v)\<lparr>needBalloonFlag := n + 1\<rparr>"
  have "balloon_one calm_ext init_globals (calm_seen v) (world (mem ?d1)) = Some (?v, world (mem ?d1))"
    using calm_balloon_one [OF v(1) assms(2)] assms(3) by simp
  from calm_section_step [OF _ _ _ _ v(1) assms(2) _ this] assms
  have "balloon_section calm_ext (mem ?d1) = Some (mem ?d1\<lparr>vmheap := (vmheap (mem d))(11 \<mapsto> ?v)\<rparr>)"
    by (simp add: calm_daemon_def calm_state_def)
  then have "sched_run calm_ext half_pass ?d1 =
      Some (d\<lparr>balloon_at := BlTop, mem := (mem d)\<lparr>vmheap := (vmheap (mem d))(11 \<mapsto> ?v)\<rparr>\<rparr>)"
    using assms(1) by (simp add: calm_daemon_def thread_up calm_sleep half_pass_def)
  moreover have "calm_rec (n + 1) ?v" using calm_seen_rec [OF v(1)] by (simp add: calm_rec_def clear_stats_def)
  ultimately show ?thesis using v(3) assms(1)
    by (auto simp: sched_run_append calm_daemon_def calm_state_def)
qed

lemma calm_rounds:
  assumes "calm_daemon 1 d" and "k \<le> 18"
  shows "\<exists>d' xs. sched_run calm_ext xs d = Some d' \<and> calm_daemon (1 + int k) d'"
  using assms(2)
proof (induction k)
  case 0
  from assms(1) show ?case by (intro exI [of _ d] exI [of _ "[]"]) simp
next
  case (Suc k)
  then obtain d1 xs where d1: "sched_run calm_ext xs d = Some d1" "calm_daemon (1 + int k) d1" by auto
  from calm_round [OF d1(2)] Suc.prems obtain d2 where
    "sched_run calm_ext (half_pass @ half_pass) d1 = Some d2" "calm_daemon (1 + int (Suc k)) d2" by (auto simp: algebra_simps)
  with d1(1) show ?case by (intro exI [of _ d2] exI [of _ "xs @ half_pass @ half_pass"]) (simp add: sched_run_append)
qed

lemma calm_start_run:
  "map_option (\<lambda>d. (main_at d, event_at d, balloon_at d, handlers d, main_mask d 15, g_stopMemlinkd (mem d),
       g_libvirtConn (mem d), cfg (mem d), domainsListHead (mem d), count (mem d), lock (mem d), world (mem d)))
     (sched_run calm_ext (replicate 4 Main_T @ replicate 11 Event_T) (init_dstate (0, []))) =
   Some (MLoop, EvAlive, BlTop, True, False, 0, Some 0, init_globals, [11], 1, False, (0, []))"
  by code_simp

lemma calm_start_vm:
  "Option.bind (sched_run calm_ext (replicate 4 Main_T @ replicate 11 Event_T) (init_dstate (0, []))) (\<lambda>d. vmheap (mem d) 11) =
   Some ((fresh_vm 8)\<lparr>vdom := Some 4, domname := Some ''two'', memory := 8388608, currentMem := 8388608, state := 1\<rparr>)"
  by code_simp

lemma calm_start:
  obtains d where "daemon_reach calm_ext d" "calm_daemon 1 d"
proof -
  let ?run = "sched_run calm_ext (replicate 4 Main_T @ replicate 11 Event_T) (init_dstate (0, []))"
  from calm_start_run obtain d where d: "?run = Some d" by auto
  have "calm_rec 1 ((fresh_vm 8)\<lparr>vdom := Some 4, domname := Some ''two'', memory := 8388608, currentMem := 8388608, state := 1\<rparr>)"
    by (simp add: calm_rec_def fresh_vm_def zero_vm_def clear_stats_def zero_stats_def)
  with calm_start_run [unfolded d] calm_start_vm [unfolded d] have "calm_daemon 1 d"
    by (auto simp: calm_daemon_def calm_state_def)
  with sched_run_reach [OF d daemon_reach.start] that show ?thesis by blast
qed

text \<open>
  The balloon thread has read the statistics for the twentieth look; a signal arrives, the main thread
  finds no VM ballooning; the balloon thread asks the guest to shrink; the main thread frees the
  records and ends.
\<close>

lemma calm_exit:
  assumes "calm_daemon 19 d"
  shows "\<exists>d'. sched_run calm_ext (half_pass @ [Signal_T 15, Main_T, Main_T, Balloon_T, Main_T, Main_T]) d = Some d' \<and>
    main_at d' = MDone 0 \<and> snd (world (mem d')) = [(Some 4, 4194304)] \<and> domainsListHead (mem d') = []"
proof -
  from calm_half [OF assms] obtain v where v: "calm_rec 19 v" "vmheap (mem d) 11 = Some v"
    "sched_run calm_ext half_pass d =
       Some (d\<lparr>balloon_at := BlSection, mem := (mem d)\<lparr>vmheap := (vmheap (mem d))(11 \<mapsto> calm_seen v)\<rparr>\<rparr>)" (is "_ = Some ?d1") .
  note d = assms [unfolded calm_daemon_def calm_state_def]
  let ?v = "(calm_seen v)\<lparr>needBalloonFlag := 0, balloonTarget := 4194304, ballooning := True, ballooningDown := True\<rparr>"
  let ?s1 = "(mem ?d1)\<lparr>g_stopMemlinkd := 15\<rparr>"
  have seen: "\<not> ballooning (calm_seen v)" "vdom (calm_seen v) = Some 4" "refcount (calm_seen v) = 1"
    using v(1) by (simp_all add: calm_rec_def calm_seen_def)
  have bk: "BalloonBackVmMem calm_ext ?s1 = Some ?s1"
    using d seen by (simp add: BalloonBackVmMem_def mutex sweep_def on_vm_def back_one_def SetVmMemoryStatsPeriod_def calm_ext_defs)
  have "balloon_one calm_ext init_globals (calm_seen v) (world ?s1) = Some (?v, (0, [(Some 4, 4194304)]))"
    using calm_balloon_one [OF v(1)] d by simp
  from calm_section_step [OF _ _ _ _ v(1) _ _ this] d
  have sec: "balloon_section calm_ext ?s1 =
      Some (?s1\<lparr>vmheap := (vmheap (mem d))(11 \<mapsto> ?v), world := (0, [(Some 4, 4194304)])\<rparr>)" by simp
  let ?s2 = "?s1\<lparr>vmheap := (vmheap (mem d))(11 \<mapsto> ?v), world := (0, [(Some 4, 4194304)])\<rparr>"
  have "\<exists>s3. FreeAllVM calm_ext ?s2 = Some s3 \<and> world s3 = world ?s2 \<and> domainsListHead s3 = []"
    using d seen by (simp add: FreeAllVM_def mutex VMInfoUnref_def DeleteVMFromList_def FreeVM_def put_vm_def
        wrap32_def ck32_def in_s32_def calm_ext_defs)
  then obtain s3 where s3: "FreeAllVM calm_ext ?s2 = Some s3" "world s3 = world ?s2" "domainsListHead s3 = []" by blast
  have "g_balloonEnable (cfg (mem d)) = 1" using d by (simp add: init_globals_def)
  then show ?thesis using v(3) d bk sec s3
    by (simp add: sched_run_append thread_up SignalHandler_def Let_def)
qed


end
