(* ===== verification/Guest.thy ===== *)
theory Guest
  imports Daemon_Props
begin

text \<open>
  The balloon thread against a guest that does what it is asked. The passes of the thread, libvirt
  and the guest form a loop: a request sets the size of the guest, and the next statistics report
  it. The theorem is about the way back: from the end of an inflation, or from an interrupted one,
  three passes give the memory back, whatever the other VMs of the list do.
\<close>

section \<open>What a record of statistics says\<close>

text \<open>The value of a field: a later parameter overrides an earlier one.\<close>

definition field_value :: "vir_param list \<Rightarrow> string \<Rightarrow> u64 option" where
  "field_value ps f = map_of (rev (map (\<lambda>p. (pfield p, praw p)) ps)) f"

definition reports_fpr :: "vir_param list \<Rightarrow> bool" where
  "reports_fpr ps = list_ex (\<lambda>p. pfield p = ''balloon.disk_caches'' \<and> 0 < and (praw p) 1) ps"

lemma field_value_snoc [simp]:
  "field_value [] f = None"
  "field_value (ps @ [p]) f = (if pfield p = f then Some (praw p) else field_value ps f)"
  by (simp_all add: field_value_def)

lemma fold_param_fields:
  "actualBalloon (memstat (fold apply_param ps v)) =
     (case field_value ps ''balloon.current'' of None \<Rightarrow> actualBalloon (memstat v) | Some x \<Rightarrow> x)"
  "memory (fold apply_param ps v) =
     (case field_value ps ''balloon.maximum'' of None \<Rightarrow> memory v | Some x \<Rightarrow> sint x)"
  "enable_fpr (fold apply_param ps v) = (enable_fpr v \<or> reports_fpr ps)"
  by (induction ps rule: rev_induct) (auto simp: apply_param_def value_ul_def reports_fpr_def Let_def)

text \<open>The members of a record that the statistics do not touch.\<close>

definition same_balloon :: "VirtualMachineInfo \<Rightarrow> VirtualMachineInfo \<Rightarrow> bool" where
  "same_balloon v v' \<longleftrightarrow> ballooning v' = ballooning v \<and> ballooningDown v' = ballooningDown v \<and>
     incompleteBalloon v' = incompleteBalloon v \<and> balloonTarget v' = balloonTarget v \<and> lockall v' = lockall v"

lemma fold_param_balloon: "same_balloon v (fold apply_param ps v)"
  by (induction ps rule: rev_induct) (auto simp: apply_param_def same_balloon_def Let_def)

lemma absorb_others:
  assumes "\<forall>r \<in> set recs. ids (rec_dom r) \<noteq> word_of_int (domid v)"
  shows "fold (absorb ids) recs v = v"
  using assms by (induction recs) (auto simp: absorb_def dest: sym)

lemma domid_param [simp]: "domid (fold apply_param ps v) = domid v"
  by (induction ps rule: rev_induct) (auto simp: apply_param_def Let_def)

lemma absorb_own:
  assumes "distinct (map (ids \<circ> rec_dom) recs)" and "r \<in> set recs" and "ids (rec_dom r) = word_of_int (domid v)"
  shows "fold (absorb ids) recs v = fold apply_param (rec_params r) v"
  using assms
proof (induction recs)
  case Nil
  then show ?case by simp
next
  case (Cons x recs)
  show ?case
  proof (cases "x = r")
    case True
    with Cons.prems have "\<forall>y \<in> set recs. ids (rec_dom y) \<noteq> word_of_int (domid v)"
      by (auto simp: image_iff)
    then have "fold (absorb ids) recs (fold apply_param (rec_params r) v) = fold apply_param (rec_params r) v"
      by (intro absorb_others) simp
    with True Cons.prems(3) show ?thesis by (simp add: absorb_def [of ids r])
  next
    case False
    with Cons.prems have "ids (rec_dom x) \<noteq> word_of_int (domid v)" by (auto simp: image_iff)
    with False Cons show ?thesis by (simp add: absorb_def)
  qed
qed

section \<open>A guest that obeys\<close>

text \<open>
  \<open>sz w i\<close> is the balloon size of the domain with id \<open>i\<close> and \<open>full\<close> its maximum. libvirt accepts a request
  (for a size it can report) and the guest has the size when the next statistics are taken; a
  request changes no other domain; the statistics have one record per domain,
  with its size and maximum; and the other calls of a pass leave the sizes alone.
\<close>

definition obeys :: "'w ext \<Rightarrow> (nat \<Rightarrow> 32 word) \<Rightarrow> ('w \<Rightarrow> 32 word \<Rightarrow> u64) \<Rightarrow> bool" where
  "obeys E ids sz \<longleftrightarrow>
     (\<forall>d t w. uint t < size_limit \<longrightarrow> fst (virDomainSetMemoryFlags E (Some d) t w) = 0 \<and>
        sz (snd (virDomainSetMemoryFlags E (Some d) t w)) (ids d) = t) \<and>
     (\<forall>d t w i. i \<noteq> ids d \<longrightarrow> sz (snd (virDomainSetMemoryFlags E (Some d) t w)) i = sz w i) \<and>
     (\<forall>d w. sz (snd (virDomainGetName E d w)) = sz w \<and> sz (snd (virDomainGetID E d w)) = sz w) \<and>
     (\<forall>rs w. sz (virDomainStatsRecordListFree E rs w) = sz w) \<and>
     (\<forall>ts w. sz (snd (gettimeofday E w)) = sz w \<and> sz (snd (nanosleep E ts w)) = sz w)"

definition reported :: "vir_record list \<Rightarrow> (nat \<Rightarrow> 32 word) \<Rightarrow> 32 word \<Rightarrow> u64 \<Rightarrow> u64 \<Rightarrow> bool" where
  "reported recs ids i a m \<longleftrightarrow> distinct (map (ids \<circ> rec_dom) recs) \<and>
     (\<exists>r \<in> set recs. ids (rec_dom r) = i \<and> field_value (rec_params r) ''balloon.current'' = Some a \<and>
        field_value (rec_params r) ''balloon.maximum'' = Some m \<and> \<not> reports_fpr (rec_params r))"

definition stats_report :: "'w ext \<Rightarrow> (nat \<Rightarrow> 32 word) \<Rightarrow> ('w \<Rightarrow> 32 word \<Rightarrow> u64) \<Rightarrow> 32 word \<Rightarrow> u64 \<Rightarrow> bool" where
  "stats_report E ids sz i m \<longleftrightarrow>
     (\<forall>c w. case virConnectGetAllDomainStats E c w of ((ret, recs), w1) \<Rightarrow>
        0 \<le> ret \<and> sz w1 = sz w \<and> reported recs ids i (sz w i) m)"

text \<open>
  How far a VM is from having its memory back, at size \<open>a\<close> of \<open>m\<close>: \<open>owed 3\<close> is a finished or interrupted
  inflation, \<open>owed 2\<close> and \<open>owed 1\<close> are the two steps back, \<open>owed 0\<close> is the idle VM with its memory.
\<close>

fun owed :: "nat \<Rightarrow> VirtualMachineInfo \<Rightarrow> u64 \<Rightarrow> u64 \<Rightarrow> bool" where
  "owed 0 v a m \<longleftrightarrow> phase_of v = Idle \<and> a = m"
| "owed (Suc 0) v a m \<longleftrightarrow> phase_of v = Restoring \<and> a = m"
| "owed (Suc (Suc 0)) v a m \<longleftrightarrow> phase_of v = Restoring \<and> a = m - 2048"
| "owed _ v a m \<longleftrightarrow> a \<noteq> 0 \<and> (phase_of v = Retrying \<or>
     phase_of v = Inflating \<and> a - word_of_int (balloonTarget v) < 1024)"

lemma same_balloon_owed: "same_balloon v v' \<Longrightarrow> owed k v' a m = owed k v a m"
  by (cases "(k, v, a, m)" rule: owed.cases) (simp_all add: same_balloon_def phase_of_def)

lemma prepared_ballooning: "ballooning v \<Longrightarrow> prepared v = v"
  by (simp add: prepared_def mark_incomplete_def record_running_def RecordPressure_def)

section \<open>One VM in one pass\<close>

lemma full_word:
  assumes "2048 < uint (m :: u64)" and "uint m < size_limit"
  shows "sint m = uint m" and "m \<noteq> 0" and "m - 2048 \<noteq> 0" and "uint (m - 2048) < size_limit"
proof -
  have "uint (m - 2048) = uint m - 2048" using back_sizes(2) [of "uint m"] assms by simp
  with assms(2) show "uint (m - 2048) < size_limit" by simp
  show "sint m = uint m" by (rule sint_limit [OF assms(2)])
  show "m \<noteq> 0" "m - 2048 \<noteq> 0" using assms(1) by auto
qed

lemma owed_turn:
  assumes "obeys E ids sz" and "owed (Suc k) v a m" and "k < 3"
    and v: "memory v = sint m" "actualBalloon (memstat v) = a" "\<not> lockall v" "\<not> enable_fpr v" "vdom v = Some d"
    and "sz w (ids d) = a" and "2048 < uint m" and "uint m < size_limit"
    and run: "balloon_one E g v w = Some (v', w')"
  shows "owed k v' (sz w' (ids d)) m \<and> lockall v' = lockall v"
proof -
  note m = full_word [OF assms(10,11)]
  have bt: "back_target u = m" if "memory u = sint m" for u using that m(1) by (simp add: back_target_def)
  obtain w1 where s1: "virDomainSetMemoryFlags E (Some d) (m - 2048) w = (0, w1)" "sz w1 (ids d) = m - 2048"
    using assms(1,11) m(4) unfolding obeys_def by (metis prod.collapse)
  obtain w2 where s2: "virDomainSetMemoryFlags E (Some d) m w = (0, w2)" "sz w2 (ids d) = m"
    using assms(1,11) m(4) unfolding obeys_def by (metis prod.collapse)
  from assms(3) consider "k = 0" | "k = 1" | "k = 2" by linarith
  then show ?thesis
  proof cases
    case 1
    with assms(2) have "phase_of v = Restoring" "a = m" by simp_all
    with run v m assms(9) 1 show ?thesis
      by (auto simp: balloon_one_def BalloonCheck_def phase_of_def split: if_splits)
  next
    case 2
    with assms(2) have "phase_of v = Restoring" "a = m - 2048" by (simp_all add: numeral_2_eq_2)
    with run v m s2 2 show ?thesis
      by (auto simp: balloon_one_def BalloonCheck_def SetVmBalloonTarget_def bt phase_of_def split: if_splits)
  next
    case 3
    with assms(2) have "a \<noteq> 0" "phase_of v = Retrying \<or> phase_of v = Inflating \<and> a - word_of_int (balloonTarget v) < 1024"
      by (simp_all add: numeral_3_eq_3 numeral_2_eq_2)
    with run v m s1 3 show ?thesis
      by (auto simp: balloon_one_def BalloonCheck_def SetVmBalloonTarget_def bt phase_of_def numeral_2_eq_2 split: if_splits)
  qed
qed

text \<open>A loop over the list, seen from one record: the other turns keep what they must of the world.\<close>

context vm_step
begin

lemma foreach_world:
  assumes "vmlist_inv s" and "distinct as" and "foreach (\<lambda>a. on_vm a f) as s = Some s'" and "R (world s)"
    and "\<And>b u w u' w'. b \<in> set as \<Longrightarrow> vmheap s b = Some u \<Longrightarrow> f u w = Some (u', w') \<Longrightarrow> R w \<Longrightarrow> R w'"
  shows "R (world s')"
  using assms
proof (induction as arbitrary: s)
  case Nil
  then show ?case by simp
next
  case (Cons b as)
  then obtain s1 where s1: "on_vm b f s = Some s1" "foreach (\<lambda>a. on_vm a f) as s1 = Some s'"
    by (auto split: Option.bind_splits)
  from on_vm_ok [OF Cons.prems(1) s1(1)] obtain u u' where one: "vmlist_inv s1" "vmheap s b = Some u"
    "vmheap s1 = (vmheap s)(b \<mapsto> u')" "f u (world s) = Some (u', world s1)" by blast
  have "R (world s1)" using Cons.prems(5) [OF _ one(2,4) Cons.prems(4)] by simp
  show ?case
  proof (rule Cons.IH [OF one(1) _ s1(2) \<open>R (world s1)\<close>])
    fix c x w x' w'
    assume c: "c \<in> set as" "vmheap s1 c = Some x" "f x w = Some (x', w')" "R w"
    with Cons.prems(2) one(3) have "vmheap s c = Some x" by (auto split: if_splits)
    with c show "R w'" using Cons.prems(5) [of c x w x' w'] by simp
  qed (use Cons.prems(2) in simp)
qed

lemma sweep_heap_same:
  assumes "vmlist_inv s" and "sweep f s = Some s'" and "vmheap s a = Some v"
  shows "\<exists>v'. vmheap s' a = Some v' \<and> same_vm v v'"
proof -
  have "a \<in> set (domainsListHead s)" using assms(3) vmlist_invD(2) [OF assms(1)] by auto
  with foreach_ok [OF assms(1) vmlist_invD(1) [OF assms(1)] assms(2) [unfolded sweep_def]] assms(3)
  show ?thesis by fastforce
qed

lemma sweep_track:
  assumes "vmlist_inv s" and "sweep f s = Some s'" and "vmheap s a = Some v" and "Q (world s)"
    and others: "\<And>b u w u' w'. b \<noteq> a \<Longrightarrow> vmheap s b = Some u \<Longrightarrow> f u w = Some (u', w') \<Longrightarrow>
      (Q w \<longrightarrow> Q w') \<and> (R w \<longrightarrow> R w')"
    and own: "\<And>w v' w'. Q w \<Longrightarrow> f v w = Some (v', w') \<Longrightarrow> R w' \<and> S v'"
  shows "\<exists>v'. vmheap s' a = Some v' \<and> S v' \<and> R (world s')"
proof -
  have "a \<in> set (domainsListHead s)" using assms(3) vmlist_invD(2) [OF assms(1)] by auto
  then obtain xs ys where l: "domainsListHead s = xs @ a # ys" using split_list by fast
  have dist: "distinct (xs @ a # ys)" using vmlist_invD(1) [OF assms(1)] l by simp
  from assms(2) obtain s1 s2 where r: "foreach (\<lambda>a. on_vm a f) xs s = Some s1" "on_vm a f s1 = Some s2"
    "foreach (\<lambda>a. on_vm a f) ys s2 = Some s'"
    by (auto simp: sweep_def l foreach_append split: Option.bind_splits)
  from dist have d: "distinct xs" "distinct ys" "a \<notin> set xs" "a \<notin> set ys" "set xs \<inter> set ys = {}" by auto
  note f1 = foreach_ok [OF assms(1) d(1) r(1)]
  then have inv1: "vmlist_inv s1" and h1: "\<And>b. b \<notin> set xs \<Longrightarrow> vmheap s1 b = vmheap s b" by blast+
  have q: "Q (world s1)"
    by (rule foreach_world [where R = Q, OF assms(1) d(1) r(1) assms(4)]) (use others d(3) in metis)
  from on_vm_ok [OF inv1 r(2)] h1 [OF d(3)] assms(3) obtain v' where one: "vmlist_inv s2"
    "vmheap s2 = (vmheap s1)(a \<mapsto> v')" "f v (world s1) = Some (v', world s2)" by auto
  from own [OF q one(3)] have o: "R (world s2)" "S v'" by simp_all
  have "R (world s')"
  proof (rule foreach_world [where R = R, OF one(1) d(2) r(3) o(1)])
    fix b u w u' w'
    assume b: "b \<in> set ys" "vmheap s2 b = Some u" "f u w = Some (u', w')" "R w"
    with d have "b \<noteq> a" "b \<notin> set xs" by auto
    with b one(2) h1 others [of b u w u' w'] show "R w'" by simp
  qed
  moreover have "vmheap s' a = Some v'" using foreach_ok [OF one(1) d(2) r(3)] d(4) one(2) by simp
  ultimately show ?thesis using o(2) by blast
qed

end

section \<open>One pass over the list\<close>

lemma obeysD:
  assumes "obeys E ids sz"
  shows "virDomainSetMemoryFlags E (Some d) t w = (r, w') \<Longrightarrow> i \<noteq> ids d \<Longrightarrow> sz w' i = sz w i"
    and "sz (snd (virDomainGetName E x w)) = sz w" and "sz (snd (virDomainGetID E x w)) = sz w"
    and "sz (virDomainStatsRecordListFree E rs w) = sz w"
    and "sz (snd (gettimeofday E w)) = sz w" and "sz (snd (nanosleep E ts w)) = sz w"
proof -
  show "sz w' i = sz w i" if "virDomainSetMemoryFlags E (Some d) t w = (r, w')" "i \<noteq> ids d"
    using assms that unfolding obeys_def by (metis snd_conv)
qed (use assms [unfolded obeys_def] in blast)+

lemma scan_dom_sz:
  assumes "obeys E ids sz" and "scan_dom E d as h w = Some (r, w')"
  shows "sz w' = sz w"
  using assms(2)
proof (induction as arbitrary: w)
  case Nil
  then show ?case by simp
next
  case (Cons a as)
  obtain x w1 where g: "virDomainGetID E (Some d) w = (x, w1)" by fastforce
  have "sz w1 = sz w" using obeysD(3) [OF assms(1), of "Some d" w] g by simp
  with Cons g show ?case by (auto split: Option.bind_splits if_splits)
qed

lemma GetOneDomainStats_sz:
  assumes "obeys E ids sz" and "GetOneDomainStats E r s = Some s'"
  shows "sz (world s') = sz (world s)"
proof -
  obtain name w where n: "virDomainGetName E (Some (rec_dom r)) (world s) = (name, w)" by fastforce
  have "sz w = sz (world s)" using obeysD(2) [OF assms(1), of "Some (rec_dom r)" "world s"] n by simp
  with assms(2) n scan_dom_sz [OF assms(1)] show ?thesis
    by (fastforce simp: GetOneDomainStats_def GetVMByDom_def on_vm_def split: Option.bind_splits option.splits)
qed

lemma GetAllDomainsStats_sz:
  assumes "obeys E ids sz" and "stats_report E ids sz i m" and "vmlist_inv s" and "GetAllDomainsStats E s = Some s'"
  shows "sz (world s') = sz (world s)"
proof (cases "g_libvirtConn s")
  case None
  with assms(4) show ?thesis by (simp add: GetAllDomainsStats_def)
next
  case (Some c)
  obtain s1 where s1: "ClearAllDomainStats s = Some s1" "world s1 = world s"
    using ClearAllDomainStats_heap [OF assms(3)] by blast
  obtain ret recs w where r: "virConnectGetAllDomainStats E c (world s) = ((ret, recs), w)" by (metis surj_pair)
  with assms(2) have w: "0 \<le> ret" "sz w = sz (world s)" unfolding stats_report_def by (auto dest!: spec [of _ c] spec [of _ "world s"])
  with assms(4) Some s1 r obtain s3 where s3: "foreach (GetOneDomainStats E) recs (s1\<lparr>world := w\<rparr>) = Some s3"
    "sz (world s') = sz (world s3)"
    using obeysD(4) [OF assms(1)] by (auto simp: GetAllDomainsStats_def split: Option.bind_splits)
  have "foreach (GetOneDomainStats E) rs t = Some t' \<Longrightarrow> sz (world t') = sz (world t)" for rs t t'
    by (induction rs arbitrary: t) (auto dest: GetOneDomainStats_sz [OF assms(1)] split: Option.bind_splits)
  from this [OF s3(1)] s3(2) w(2) show ?thesis by simp
qed

lemma stats_track:
  assumes "obeys E ids sz" and "stats_report E ids sz i m" and "ids_ok E ids" and "vmlist_inv s" and "ids_distinct s"
    and "g_libvirtConn s = Some c" and "vmheap s a = Some v" and "word_of_int (domid v) = i"
    and "GetAllDomainsStats E s = Some s'"
  shows "\<exists>v'. vmheap s' a = Some v' \<and> same_balloon v v' \<and> memory v' = sint m \<and>
    actualBalloon (memstat v') = sz (world s) i \<and> \<not> enable_fpr v'"
proof -
  obtain ret recs w where r: "virConnectGetAllDomainStats E c (world s) = ((ret, recs), w)" by (metis surj_pair)
  with assms(2) have w: "0 \<le> ret" "reported recs ids i (sz (world s) i) m"
    unfolding stats_report_def by (auto dest!: spec [of _ c] spec [of _ "world s"])
  then obtain x where x: "distinct (map (ids \<circ> rec_dom) recs)" "x \<in> set recs" "ids (rec_dom x) = i"
    "field_value (rec_params x) ''balloon.current'' = Some (sz (world s) i)"
    "field_value (rec_params x) ''balloon.maximum'' = Some m" "\<not> reports_fpr (rec_params x)"
    by (auto simp: reported_def)
  from GetAllDomainsStats_absorbs [OF assms(4,5,3,6) r] assms(7,9) w(1)
  have "vmheap s' a = Some (fold (absorb ids) recs (clear_stats v))" by simp
  moreover have "fold (absorb ids) recs (clear_stats v) = fold apply_param (rec_params x) (clear_stats v)"
    by (rule absorb_own [OF x(1,2)]) (simp add: x(3) assms(8) clear_stats_def)
  moreover have "same_balloon v (fold apply_param (rec_params x) (clear_stats v))"
    using fold_param_balloon [of "clear_stats v"] by (simp add: same_balloon_def clear_stats_def)
  ultimately show ?thesis using x(4-6) by (simp add: fold_param_fields clear_stats_def)
qed

text \<open>Every VM's handle belongs to its id. Requests of a VM then change its own size only.\<close>

definition handles_ok :: "(nat \<Rightarrow> 32 word) \<Rightarrow> 'w mstate \<Rightarrow> bool" where
  "handles_ok ids s \<longleftrightarrow> (\<forall>v \<in> set (vms s). \<exists>d. vdom v = Some d \<and> ids d = word_of_int (domid v))"

lemma handlesD:
  assumes "handles_ok ids s" and "vmlist_inv s" and "vmheap s a = Some v"
  shows "\<exists>d. vdom v = Some d \<and> ids d = word_of_int (domid v)"
  using heap_vms [OF assms(2), of "\<lambda>v. \<exists>d. vdom v = Some d \<and> ids d = word_of_int (domid v)"] assms(1,3)
  by (auto simp: handles_ok_def)

definition same_vms :: "'w mstate \<Rightarrow> 'w mstate \<Rightarrow> bool" where
  "same_vms s s' \<longleftrightarrow> domainsListHead s' = domainsListHead s \<and>
     (\<forall>a v. vmheap s a = Some v \<longrightarrow> (\<exists>v'. vmheap s' a = Some v' \<and> same_vm v v'))"

lemma same_vms_domid: "same_vms s s' \<Longrightarrow> vmheap s a = Some v \<Longrightarrow> vmheap s' a = Some v' \<Longrightarrow> domid v' = domid v"
  by (fastforce simp: same_vms_def same_vm_def)

lemma same_vms_trans: "same_vms s t \<Longrightarrow> same_vms t u \<Longrightarrow> same_vms s u"
  unfolding same_vms_def by (metis same_vm_trans)

lemma same_vms_handles:
  assumes "same_vms s s'" and "vmlist_inv s"
  shows "handles_ok ids s \<Longrightarrow> handles_ok ids s'" and "ids_distinct s \<Longrightarrow> ids_distinct s'"
proof -
  have *: "\<exists>v \<in> set (vms s). same_vm v v'" if v': "v' \<in> set (vms s')" for v'
  proof -
    from v' assms(1) obtain a where a: "a \<in> set (domainsListHead s)" "v' = the (vmheap s' a)"
      by (auto simp: vms_def same_vms_def)
    from vmlist_inv_heap [OF assms(2) a(1)] obtain v where "vmheap s a = Some v" by blast
    with a assms(1) show ?thesis by (force simp: vms_def same_vms_def)
  qed
  show "handles_ok ids s'" if "handles_ok ids s"
    using that * unfolding handles_ok_def same_vm_def by metis
  show "ids_distinct s'" if "ids_distinct s" using that * unfolding ids_distinct_def same_vm_def by metis
qed

lemma other_turn:
  assumes "obeys E ids sz" and "vm_ok u" and "vdom u = Some d" and "ids d \<noteq> i"
    and "balloon_one E g u w = Some (u', w')"
  shows "sz w' i = sz w i"
proof -
  obtain act where "performs E u act w w'" using balloon_one_step [OF assms(2,5)] by (auto simp: step_ok_def)
  then show ?thesis using obeysD(1) [OF assms(1)] assms(3,4) by (cases act) (auto dest: sym)
qed

lemma owed_size: "k < 3 \<Longrightarrow> owed k v a m \<Longrightarrow> a = (if k = 2 then m - 2048 else m)"
  by (cases "(k, v, a, m)" rule: owed.cases) (auto simp: numeral_2_eq_2)

lemma owed_ballooning: "owed (Suc k) v a m \<Longrightarrow> ballooning v"
  by (cases "(Suc k, v, a, m)" rule: owed.cases) (auto simp: phase_of_def split: if_splits)

lemma prepared_same: "vm_ok v \<Longrightarrow> same_vm v (prepared v)"
  using mark_incomplete_ok [of v] record_running_ok [of "mark_incomplete v"] same_vm_trans unfolding prepared_def by blast

text \<open>The locked section, after the statistics.\<close>

lemma balloon_section_heap:
  assumes "list_safe s" and "balloon_section E s = Some s'"
  obtains t u where "vmlist_inv t" "world t = world s" "vmheap t = (\<lambda>b. map_option prepared (vmheap s b))"
    "sweep (balloon_one E (cfg s)) t = Some u" "s' = u\<lparr>lock := False\<rparr>" "same_vms s u"
proof -
  note s = list_safeD [OF assms(1)]
  obtain t where t: "vmlist_inv t" "domainsListHead t = domainsListHead s" "vms t = map prepared (vms s)" "world t = world s"
    "balloon_section E s = do { u \<leftarrow> sweep (balloon_one E (cfg s)) t; unlock_vmlist u }"
    by (rule balloon_section_split [OF s(1,2)])
  from assms(2) t(5) obtain u where u: "sweep (balloon_one E (cfg s)) t = Some u" "s' = u\<lparr>lock := False\<rparr>"
    by (auto simp: mutex split: Option.bind_splits if_splits)
  have "vmheap t b = map_option prepared (vmheap s b)" for b
  proof (cases "b \<in> set (domainsListHead s)")
    case True
    with t(3) have "the (vmheap t b) = prepared (the (vmheap s b))" by (simp add: vms_def t(2))
    with True vmlist_inv_heap [OF s(1), of b] vmlist_inv_heap [OF t(1), of b] t(2) show ?thesis by auto
  next
    case False
    with vmlist_invD(2) [OF s(1)] vmlist_invD(2) [OF t(1)] t(2) show ?thesis by auto
  qed
  then have h: "vmheap t = (\<lambda>b. map_option prepared (vmheap s b))" ..
  moreover have "same_vms s t" using h prepared_same vmlist_invD(4) [OF s(1)] t(2) by (auto simp: same_vms_def)
  moreover have "same_vms t u"
    using balloon_step.sweep_ok(3) [OF t(1) u(1)] balloon_step.sweep_heap_same [OF t(1) u(1)] by (simp add: same_vms_def)
  ultimately show ?thesis using that t(1,4) u same_vms_trans by blast
qed

lemma section_track:
  assumes "obeys E ids sz" and "list_safe s" and "handles_ok ids s" and "ids_distinct s"
    and "vmheap s a = Some v" and i: "word_of_int (domid v) = i" and "owed (Suc k) v (sz (world s) i) m" and "k < 3"
    and v: "memory v = sint m" "actualBalloon (memstat v) = sz (world s) i" "\<not> lockall v" "\<not> enable_fpr v"
    and m: "2048 < uint m" "uint m < size_limit" and run: "balloon_section E s = Some s'"
  shows "same_vms s s' \<and>
    (\<exists>v'. vmheap s' a = Some v' \<and> owed k v' (sz (world s') i) m \<and> \<not> lockall v')"
proof -
  note s = list_safeD [OF assms(2)]
  obtain t u where t: "vmlist_inv t" "world t = world s" and heap: "vmheap t = (\<lambda>b. map_option prepared (vmheap s b))"
    and u: "sweep (balloon_one E (cfg s)) t = Some u" "s' = u\<lparr>lock := False\<rparr>" "same_vms s u"
    by (rule balloon_section_heap [OF assms(2) run])
  obtain d where d: "vdom v = Some d" "ids d = i" using handlesD [OF assms(3) s(1) assms(5)] i by blast
  have pv: "prepared v = v" using owed_ballooning [OF assms(7)] by (rule prepared_ballooning)
  define y where "y = (if k = 2 then m - 2048 else m)"
  have "\<exists>v'. vmheap u a = Some v' \<and> (owed k v' y m \<and> \<not> lockall v') \<and> sz (world u) i = y"
  proof (rule balloon_step.sweep_track [where Q = "\<lambda>w. sz w i = sz (world s) i" and R = "\<lambda>w. sz w i = y",
        OF t(1) u(1)])
    show "vmheap t a = Some v" using heap assms(5) pv by simp
    show "sz (world t) i = sz (world s) i" using t(2) by simp
  next
    fix b x w x' w'
    assume b: "b \<noteq> a" "vmheap t b = Some x" "balloon_one E (cfg s) x w = Some (x', w')"
    then obtain x0 where x0: "vmheap s b = Some x0" "x = prepared x0" using heap by auto
    have ok: "vm_ok x0" by (rule vmlist_invD(4) [OF s(1) x0(1)])
    obtain d' where d': "vdom x0 = Some d'" "ids d' = word_of_int (domid x0)" using handlesD [OF assms(3) s(1) x0(1)] by blast
    have "word_of_int (domid x0) \<noteq> i"
      using word_domid_inj [OF s(1) assms(4) x0(1) assms(5)] b(1) i by auto
    then have "sz w' i = sz w i"
      using other_turn [OF assms(1) _ _ _ b(3), of d' i] vmlist_invD(4) [OF t(1) b(2)] d' prepared_same [OF ok] x0(2)
      by (simp add: same_vm_def)
    then show "(sz w i = sz (world s) i \<longrightarrow> sz w' i = sz (world s) i) \<and> (sz w i = y \<longrightarrow> sz w' i = y)" by simp
  next
    fix w v' w'
    assume w: "sz w i = sz (world s) i" "balloon_one E (cfg s) v w = Some (v', w')"
    from owed_turn [OF assms(1,7,8) v d(1) _ m w(2)] w(1) d(2) v(3)
    have o: "owed k v' (sz w' i) m" "\<not> lockall v'" by simp_all
    with owed_size [OF assms(8) o(1)] show "sz w' i = y \<and> owed k v' y m \<and> \<not> lockall v'" by (simp add: y_def)
  qed
  then show ?thesis using u(2,3) by (auto simp: same_vms_def)
qed

lemma fold_absorb_ok: "vm_ok v \<Longrightarrow> vm_ok (fold (absorb ids) rs v) \<and> same_vm v (fold (absorb ids) rs v)"
proof (induction rs arbitrary: v)
  case Nil
  then show ?case by simp
next
  case (Cons r rs)
  from absorb_ok [OF Cons.prems, of ids r] Cons.IH [of "absorb ids r v"] show ?case
    by (auto intro: same_vm_trans)
qed

lemma stats_same:
  assumes "vmlist_inv s" and "ids_distinct s" and "ids_ok E ids" and "g_libvirtConn s = Some c"
    and "GetAllDomainsStats E s = Some s'"
  shows "same_vms s s'"
proof -
  obtain ret recs w where r: "virConnectGetAllDomainStats E c (world s) = ((ret, recs), w)" by (metis surj_pair)
  let ?h = "\<lambda>v. if ret < 0 then clear_stats v else fold (absorb ids) recs (clear_stats v)"
  from GetAllDomainsStats_absorbs [OF assms(1-4) r] assms(5) have
    h: "domainsListHead s' = domainsListHead s" "vmheap s' = (\<lambda>a. map_option ?h (vmheap s a))" by auto
  have "same_vm v (?h v)" if "vm_ok v" for v
    using clear_stats_ok [OF that] fold_absorb_ok [of "clear_stats v" ids recs] same_vm_trans by auto
  then show ?thesis using h vmlist_invD(4) [OF assms(1)] by (auto simp: same_vms_def)
qed

definition on_track ::
    "(nat \<Rightarrow> 32 word) \<Rightarrow> ('w \<Rightarrow> 32 word \<Rightarrow> u64) \<Rightarrow> u64 \<Rightarrow> int \<Rightarrow> nat \<Rightarrow> 'w mstate \<Rightarrow> bool" where
  "on_track ids sz m i k s \<longleftrightarrow> list_safe s \<and> cfg_ok (cfg s) \<and> g_libvirtConn s \<noteq> None \<and> ids_distinct s \<and> handles_ok ids s \<and>
     (\<exists>v \<in> set (vms s). domid v = i \<and> \<not> lockall v \<and> owed k v (sz (world s) (word_of_int i)) m)"

lemma stats_pass_track:
  assumes "env_live E" and "obeys E ids sz" and "stats_report E ids sz (word_of_int (domid v)) m" and "ids_ok E ids"
    and s: "list_safe s" "ids_distinct s" "g_libvirtConn s = Some c" and "vmheap s a = Some v"
  obtains s1 v1 where "UpdateAllVmInfoAndMemoryStats E s = Some s1" "list_safe s1" "list_frame s s1" "same_vms s s1"
    "sz (world s1) = sz (world s)" "vmheap s1 a = Some v1" "same_balloon v v1" "memory v1 = sint m"
    "actualBalloon (memstat v1) = sz (world s) (word_of_int (domid v))" "\<not> enable_fpr v1"
proof -
  let ?s0 = "s\<lparr>lock := True\<rparr>"
  note safe = list_safeD [OF s(1)]
  have s0: "vmlist_inv ?s0" "ids_distinct ?s0" "g_libvirtConn ?s0 = Some c" "vmheap ?s0 a = Some v"
    using safe(1) s(2,3) assms(8) by (simp_all add: ids_distinct_def vms_def)
  obtain u where u: "GetAllDomainsStats E ?s0 = Some u" "list_frame ?s0 u" using GetAllDomainsStats_inv [OF s0(1)] by blast
  let ?s1 = "u\<lparr>lock := False\<rparr>"
  have up: "UpdateAllVmInfoAndMemoryStats E s = Some ?s1"
    using u safe(2) by (simp add: UpdateAllVmInfoAndMemoryStats_def mutex list_frame_def)
  note sec = stats_section.section_safe [OF env_liveD(2) [OF assms(1)] env_safeD(2) [OF env_liveD(1) [OF assms(1)]] s(1) up]
  from stats_track [OF assms(2,3,4) s0 refl u(1)] obtain v1 where v1: "vmheap ?s1 a = Some v1" "same_balloon v v1"
    "memory v1 = sint m" "actualBalloon (memstat v1) = sz (world s) (word_of_int (domid v))" "\<not> enable_fpr v1" by auto
  have "same_vms s ?s1" using stats_same [OF s0(1,2) assms(4) s0(3) u(1)] by (simp add: same_vms_def)
  moreover have "sz (world ?s1) = sz (world s)" using GetAllDomainsStats_sz [OF assms(2,3) s0(1) u(1)] by simp
  ultimately show ?thesis using that [OF up] sec v1 by blast
qed

lemma SleepApprox_sz: "obeys E ids sz \<Longrightarrow> SleepApprox E n w = Some w' \<Longrightarrow> sz w' = sz w"
proof -
  assume o: "obeys E ids sz" and r: "SleepApprox E n w = Some w'"
  obtain x y z w1 where "gettimeofday E w = ((x, y, z), w1)" by (metis surj_pair)
  with r obeysD(5,6) [OF o] show "sz w' = sz w" by (auto simp: SleepApprox_def split: Option.bind_splits) (metis snd_conv)
qed

lemma pass_track:
  assumes "env_live E" and "obeys E ids sz" and "stats_report E ids sz (word_of_int i) m" and "ids_ok E ids"
    and "2048 < uint m" "uint m < size_limit" and "k < 3" and "on_track ids sz m i (Suc k) s"
  shows "\<exists>s'. BalloonVmMemThread_body E s = Some s' \<and> on_track ids sz m i k s'"
proof -
  from assms(8) obtain c a v where s: "list_safe s" "cfg_ok (cfg s)" "g_libvirtConn s = Some c" "ids_distinct s" "handles_ok ids s"
    and v: "vmheap s a = Some v" "domid v = i" "\<not> lockall v" "owed (Suc k) v (sz (world s) (word_of_int i)) m"
    using vmlist_inv_heap list_safeD(1) by (fastforce simp: on_track_def vms_def)
  obtain s1 v1 where s1: "UpdateAllVmInfoAndMemoryStats E s = Some s1" "list_safe s1" "list_frame s s1" "same_vms s s1"
    and w1: "sz (world s1) = sz (world s)" and v1: "vmheap s1 a = Some v1" "same_balloon v v1" "memory v1 = sint m"
    "actualBalloon (memstat v1) = sz (world s1) (word_of_int i)" "\<not> enable_fpr v1"
    using stats_pass_track [OF assms(1,2) _ assms(4) s(1,4,3) v(1)] assms(3) v(2) by metis
  note h1 = same_vms_handles [OF s1(4) list_safeD(1) [OF s(1)]]
  have o1: "owed (Suc k) v1 (sz (world s1) (word_of_int i)) m" "\<not> lockall v1"
    using v(3,4) w1 same_balloon_owed [OF v1(2)] v1(2) by (simp_all add: same_balloon_def)
  have d1: "word_of_int (domid v1) = (word_of_int i :: 32 word)"
    using same_vms_domid [OF s1(4) v(1) v1(1)] v(2) by simp
  obtain s2 where s2: "balloon_section E s1 = Some s2"
    using balloon_section_runs [OF s1(2), of E] s(2) s1(3) by (auto simp: list_frame_def)
  from section_track [OF assms(2) s1(2) h1(1) [OF s(5)] h1(2) [OF s(4)] v1(1) d1 o1(1) assms(7) v1(3,4) o1(2) v1(5) assms(5,6) s2]
  obtain v2 where t2: "same_vms s1 s2" "vmheap s2 a = Some v2" "owed k v2 (sz (world s2) (word_of_int i)) m" "\<not> lockall v2" by blast
  note sec = balloon_pass.section_safe [OF env_liveD(2) [OF assms(1)] env_safeD(2) [OF env_liveD(1) [OF assms(1)]] s1(2) s2]
  note h2 = same_vms_handles [OF same_vms_trans [OF s1(4) t2(1)] list_safeD(1) [OF s(1)]]
  obtain w where w: "SleepApprox E 2 (world s2) = Some w"
    using SleepApprox_runs [OF env_liveD(4) [OF assms(1)], of 2 "world s2"] by (auto simp: cint)
  have "domid v2 = i" using same_vms_domid [OF same_vms_trans [OF s1(4) t2(1)] v(1) t2(2)] v(2) by simp
  moreover have "v2 \<in> set (vms s2)"
    using t2(2) vmlist_invD(2) [OF list_safeD(1) [OF conjunct1 [OF sec]]] by (force simp: vms_def)
  ultimately have "on_track ids sz m i k (s2\<lparr>world := w\<rparr>)"
    using sec s1(3) s(2,3) h2(1) [OF s(5)] h2(2) [OF s(4)] t2(3,4) SleepApprox_sz [OF assms(2) w]
    by (auto simp: on_track_def list_frame_def handles_ok_def ids_distinct_def vms_def)
  then show ?thesis using s1(1) s2 w by (simp add: BalloonVmMemThread_body_def)
qed

text \<open>
  C11: The memory comes back. Let libvirt accept requests and a guest follow them and report its size.
  If the VM's inflation has reached its target, or has been interrupted, then three passes of the
  balloon thread return, whatever the other VMs on the list do; the first leaves the guest 2 MiB
  below its memory, the second gives it all of its memory, and after the third the VM is idle.
\<close>

theorem memory_comes_back:
  assumes "env_live E" and "obeys E ids sz" and "stats_report E ids sz (word_of_int i) m" and "ids_ok E ids"
    and "2048 < uint m" and "uint m < size_limit" and "on_track ids sz m i 3 s"
  shows "\<exists>s1 s2 s3. BalloonVmMemThread_body E s = Some s1 \<and> sz (world s1) (word_of_int i) = m - 2048 \<and>
    BalloonVmMemThread_body E s1 = Some s2 \<and> sz (world s2) (word_of_int i) = m \<and>
    BalloonVmMemThread_body E s2 = Some s3 \<and> sz (world s3) (word_of_int i) = m \<and>
    (\<exists>v \<in> set (vms s3). domid v = i \<and> phase_of v = Idle)"
proof -
  note pass = pass_track [OF assms(1-6)]
  from pass [of 2] assms(7) obtain s1 where s1: "BalloonVmMemThread_body E s = Some s1" "on_track ids sz m i 2 s1" by auto
  from pass [of 1] s1(2) obtain s2 where s2: "BalloonVmMemThread_body E s1 = Some s2" "on_track ids sz m i 1 s2"
    by (auto simp: numeral_2_eq_2)
  from pass [of 0] s2(2) obtain s3 where s3: "BalloonVmMemThread_body E s2 = Some s3" "on_track ids sz m i 0 s3" by auto
  from s1(2) s2(2) s3(2) have "sz (world s1) (word_of_int i) = m - 2048" "sz (world s2) (word_of_int i) = m"
    "sz (world s3) (word_of_int i) = m" "\<exists>v \<in> set (vms s3). domid v = i \<and> phase_of v = Idle"
    by (auto simp: on_track_def numeral_2_eq_2)
  with s1(1) s2(1) s3(1) show ?thesis by blast
qed

section \<open>Two tolerances\<close>

text \<open>
  C32: A restoration that is done is begun again. The check takes a VM as restored at less than 1 MiB
  below its memory, but the next pass takes every VM below its memory for one that lost memory
  elsewhere: a guest that settles in between leaves the state Idle for the state Retrying, and is asked to give up
  2 MiB and to come back once more.
\<close>

theorem restored_not_left_alone:
  assumes "phase_of v = Restoring" and "\<not> lockall v" and "\<not> enable_fpr v" and "\<not> CheckVmMemoryStat (Some v) < 0"
    and "currentMem v = sint (actualBalloon (memstat v))" and "0 \<le> currentMem v"
    and "currentMem v < memory v" and "memory v < currentMem v + 1024"
  shows "\<exists>v1 v2 r w2. balloon_one E g (prepared v) w = Some (v1, w) \<and> phase_of v1 = Idle \<and>
    phase_of (prepared v1) = Retrying \<and> balloon_one E g (prepared v1) w = Some (v2, w2) \<and>
    virDomainSetMemoryFlags E (vdom v) (back_target v - 2048) w = (r, w2) \<and>
    phase_of v2 = (if r < 0 then Retrying else Restoring)"
proof -
  let ?v1 = "v\<lparr>ballooning := False\<rparr>" and ?v2 = "v\<lparr>incompleteBalloon := True\<rparr>"
  have fl: "ballooning v" "\<not> incompleteBalloon v" "\<not> ballooningDown v"
    using assms(1) by (auto simp: phase_of_def split: if_splits)
  have act: "actualBalloon (memstat v) \<noteq> 0" using assms(4) by (auto simp: CheckVmMemoryStat_iff)
  have "word_of_int (memory v) - actualBalloon (memstat v) = word_of_int (memory v - currentMem v)"
    using assms(5) by simp
  moreover have "uint (word_of_int (memory v - currentMem v) :: u64) = memory v - currentMem v"
    using assms(7,8) by (simp add: uint_word_of_int del: of_int_diff)
  ultimately have lt: "word_of_int (memory v) - actualBalloon (memstat v) < 1024"
    using assms(8) by (simp add: word_less_def)
  have one: "balloon_one E g (prepared v) w = Some (?v1, w)"
    using fl act lt assms(2,3) by (simp add: prepared_ballooning balloon_one_def BalloonCheck_def)
  have p1: "prepared ?v1 = ?v2"
    using fl assms(4,7)
    by (simp add: prepared_def mark_incomplete_def record_running_def RecordPressure_def CheckVmMemoryStat_iff)
  obtain r w2 where r: "virDomainSetMemoryFlags E (vdom v) (back_target v - 2048) w = (r, w2)" by fastforce
  have "back_target ?v2 = back_target v" by (simp add: back_target_def)
  with r act fl assms(2,3) have two: "\<exists>v2. balloon_one E g ?v2 w = Some (v2, w2) \<and>
      phase_of v2 = (if r < 0 then Retrying else Restoring)"
    by (simp add: balloon_one_def BalloonCheck_def SetVmBalloonTarget_def phase_of_def)
  have "phase_of ?v1 = Idle" "phase_of ?v2 = Retrying" using fl by (simp_all add: phase_of_def)
  with one two p1 r show ?thesis by (metis (no_types))
qed

section \<open>Instances\<close>

text \<open>One domain with the id 7 that starts near its target of 4 GiB and takes every size that it is asked for.\<close>

definition guest_size :: "ref_world \<Rightarrow> 32 word \<Rightarrow> u64" where
  "guest_size w i =
     (let x = (if snd w = [] then 4194500 else snd (last (snd w)))
      in if i = 7 \<and> uint x < size_limit then x else 0)"

definition guest_ext :: "ref_world ext" where
  "guest_ext = ref_ext\<lparr>virDomainGetID := (\<lambda>_ w. (7, w)),
     virDomainSetMemoryFlags := (\<lambda>d t w. if uint t < size_limit then (0, (fst w, snd w @ [(d, t)])) else (-1, w)),
     virConnectGetAllDomainStats := (\<lambda>_ w. ((1, [\<lparr>rec_dom = 3, rec_params =
       [\<lparr>pfield = ''balloon.current'', praw = guest_size w 7\<rparr>, \<lparr>pfield = ''balloon.maximum'', praw = 8388608\<rparr>]\<rparr>]), w))\<rparr>"

text \<open>A VM of 8 GiB on the way back, at the given size.\<close>

definition settled_vm :: "u64 \<Rightarrow> VirtualMachineInfo" where
  "settled_vm a = demo_vm\<lparr>ballooning := True, currentMem := sint a,
     memstat := zero_stats\<lparr>actualBalloon := a, available := 8000000, usable := 6000000\<rparr>\<rparr>"

lemma guest_env:
  "env_live guest_ext" "ids_ok guest_ext (\<lambda>_. 7)" "obeys guest_ext (\<lambda>_. 7) guest_size"
  "stats_report guest_ext (\<lambda>_. 7) guest_size 7 8388608"
proof -
  show "env_live guest_ext"
    by (auto simp: env_live_def env_safe_def calloc_ok_def sizes_documented_def strtok_s_ok_def clock_ok_def
        listing_ok_def guest_ext_def ref_ext_def guest_size_def in_s32_def Let_def)
  show "ids_ok guest_ext (\<lambda>_. 7)" by (simp add: ids_ok_def guest_ext_def)
  show "obeys guest_ext (\<lambda>_. 7) guest_size" by (simp add: obeys_def guest_ext_def ref_ext_def guest_size_def)
  show "stats_report guest_ext (\<lambda>_. 7) guest_size 7 8388608"
    by (simp add: stats_report_def guest_ext_def reported_def field_value_def reports_fpr_def)
qed

lemma busy_on_track: "on_track (\<lambda>_. 7) guest_size 8388608 7 3 busy_state"
proof -
  have "\<forall>v \<in> set (vms busy_state). vm_shared v"
    by (simp add: busy_vms vm_shared_def vm_sized_def shrinking_vm_def demo_vm_def fresh_vm_def zero_vm_def
        zero_stats_def zero_params_def)
  then have "list_safe busy_state" using busy_state_inv heap_vms [OF busy_state_inv(1), of vm_shared] by (simp add: list_safe_def)
  moreover have "cfg_ok (cfg busy_state)" "g_libvirtConn busy_state \<noteq> None" "world busy_state = (0, [])"
    using cfg_ok_init by (simp_all add: busy_state_def demo_state_def init_mstate_def)
  ultimately show ?thesis
    by (simp add: on_track_def ids_distinct_def handles_ok_def busy_vms numeral_3_eq_3 guest_size_def
        shrinking_vm_def demo_vm_def fresh_vm_def zero_vm_def phase_of_def in_s32_def)
qed

theorem memory_comes_back_witness:
  "\<exists>s1 s2 s3. BalloonVmMemThread_body guest_ext busy_state = Some s1 \<and> guest_size (world s1) 7 = 8386560 \<and>
     BalloonVmMemThread_body guest_ext s1 = Some s2 \<and> BalloonVmMemThread_body guest_ext s2 = Some s3 \<and>
     guest_size (world s3) 7 = 8388608 \<and> (\<exists>v \<in> set (vms s3). domid v = 7 \<and> phase_of v = Idle)"
  using memory_comes_back [of guest_ext "\<lambda>_. 7" guest_size 7 8388608 busy_state] guest_env busy_on_track by auto

theorem restored_not_left_alone_witness:
  "\<exists>v1 v2 r w2. balloon_one ref_ext init_globals (prepared (settled_vm 8388108)) (0, []) = Some (v1, (0, [])) \<and>
     phase_of v1 = Idle \<and> phase_of (prepared v1) = Retrying \<and>
     balloon_one ref_ext init_globals (prepared v1) (0, []) = Some (v2, w2) \<and>
     virDomainSetMemoryFlags ref_ext (Some 3) 8386560 (0, []) = (r, w2)"
proof -
  let ?v = "settled_vm 8388108"
  have "\<not> CheckVmMemoryStat (Some ?v) < 0" by (simp add: settled_vm_def CheckVmMemoryStat_iff zero_stats_def)
  moreover have "phase_of ?v = Restoring" "\<not> lockall ?v" "\<not> enable_fpr ?v"
    "currentMem ?v = sint (actualBalloon (memstat ?v))" "0 \<le> currentMem ?v" "currentMem ?v < memory ?v"
    "memory ?v < currentMem ?v + 1024" "vdom ?v = Some 3" "back_target ?v - 2048 = 8386560"
    by (simp_all add: settled_vm_def demo_vm_def fresh_vm_def zero_vm_def phase_of_def back_target_def)
  ultimately show ?thesis using restored_not_left_alone [of ?v ref_ext init_globals "(0, [])"] by metis
qed

end
