(* ===== verification/Util_File.thy ===== *)
theory Util_File
  imports Environment
begin

text \<open>
  src/util.c: writing short texts and numbers to control files, a lookup in a one-line JSON text,
  the string comparisons, and the initialisation of a mutex. The writes are unbuffered and are
  repeated a given number of times, because a cgroup file may refuse a value for a while.
\<close>

section \<open>Operations\<close>

text \<open>
  The retry loop of \<open>WriteStringToFile\<close>: it runs until a write succeeds or the counter is 0, and
  gives the counter. A negative counter never reaches 0 and traps at the end of the \<open>int\<close> range.
\<close>

function write_retry :: "'w ext \<Rightarrow> int \<Rightarrow> string \<Rightarrow> int \<Rightarrow> 'w \<Rightarrow> (int \<times> 'w) option" where
  "write_retry E fd str nrRetry w =
     (if nrRetry = 0 then Some (0, w)
      else
        let (r, w1) = write_fd E fd str w
        in if r < 0 then do { n \<leftarrow> ck32 (nrRetry - 1); write_retry E fd str n w1 }
           else Some (nrRetry, w1))"
  by pat_completeness auto
termination
  by (relation "measure (\<lambda>(E, fd, str, n, w). nat (n + 2147483649))") (auto dest!: ck32_SomeD simp: in_s32_def)

declare write_retry.simps [simp del]

definition close_out :: "'w ext \<Rightarrow> int \<Rightarrow> 'w \<Rightarrow> 'w" where
  "close_out E fd w = (if fd \<ge> 0 then close_fd E fd w else w)"

definition WriteStringToFile ::
    "'w ext \<Rightarrow> string option \<Rightarrow> string option \<Rightarrow> int \<Rightarrow> 'w \<Rightarrow> (int \<times> 'w) option" where
  "WriteStringToFile E path str retryCount w =
     (case (path, str) of
       (Some p, Some t) \<Rightarrow>
         (let (canonicalPath, w1) = realpath E p w
          in case canonicalPath of
               None \<Rightarrow> Some (-1, w1)
             | Some c \<Rightarrow>
                (let (fd, w2) = open_wronly E c w1
                 in if fd = -1 then Some (-1, w2)
                    else
                      let (r, w3) = write_fd E fd t w2; ret = wrap32 r
                      in if ret \<ge> 0 then Some (ret, close_out E fd w3)
                         else do { (n, w4) \<leftarrow> write_retry E fd t retryCount w3;
                                   Some (if n = 0 then ret else 0, close_out E fd w4) }))
     | _ \<Rightarrow> Some (-1, w))"

abbreviation (input) MAX_LONG_SIZE :: nat where "MAX_LONG_SIZE \<equiv> 32"
abbreviation (input) MAX_MONITORCOMMAND :: nat where "MAX_MONITORCOMMAND \<equiv> 256"

definition WriteCgroupPathU64 :: "'w ext \<Rightarrow> string option \<Rightarrow> u64 \<Rightarrow> int \<Rightarrow> 'w \<Rightarrow> (int \<times> 'w) option" where
  "WriteCgroupPathU64 E path val retryCount w =
     (let (rc, buf) = sprintf_s E MAX_LONG_SIZE (show_int (uint val))
      in if rc < 0 then Some (-1, w) else WriteStringToFile E path (Some buf) retryCount w)"

definition WriteCgroupPathS64 :: "'w ext \<Rightarrow> string option \<Rightarrow> int \<Rightarrow> int \<Rightarrow> 'w \<Rightarrow> (int \<times> 'w) option" where
  "WriteCgroupPathS64 E path val retryCount w =
     (let (rc, buf) = sprintf_s E MAX_LONG_SIZE (show_int val)
      in if rc < 0 then Some (-1, w) else WriteStringToFile E path (Some buf) retryCount w)"

definition WriteValueToLinuxProc :: "'w ext \<Rightarrow> string option \<Rightarrow> int \<Rightarrow> 'w \<Rightarrow> (int \<times> 'w) option" where
  "WriteValueToLinuxProc E path val w =
     (let (rc, cmd) = snprintf_s E MAX_MONITORCOMMAND (MAX_MONITORCOMMAND - 1) (show_int val)
      in if rc < 0 then Some (-1, w) else WriteStringToFile E path (Some cmd) 10 w)"

text \<open>
  The value is written to \<open>*value\<close> as soon as it is converted, also when the closing quote is then
  missing; \<open>None\<close> leaves it alone. The text and the key are copied into buffers of 1024 bytes.
\<close>

definition LINE_MAX_CHAR :: nat where
  "LINE_MAX_CHAR = 1024"

definition QUOTE :: string where
  "QUOTE = [CHR 0x27]"

definition strip_blanks :: "string \<Rightarrow> string" where
  "strip_blanks str = filter (\<lambda>c. c \<noteq> CHR '' '') str"

definition GetFloatValueFromJsonString ::
    "'w ext \<Rightarrow> string option \<Rightarrow> string option \<Rightarrow> int \<times> 32 word option" where
  "GetFloatValueFromJsonString E str key =
     (case (str, key) of
       (Some s, Some k) \<Rightarrow>
         (if length s \<le> length k \<or> length s \<ge> LINE_MAX_CHAR then (-1, None)
          else
            let strTemp = strip_blanks s;
                (rc, keyTemp) = snprintf_s E LINE_MAX_CHAR (LINE_MAX_CHAR - 1) (QUOTE @ k @ QUOTE)
            in if rc < 0 then (-1, None)
               else case strstr strTemp keyTemp of
                      None \<Rightarrow> (-1, None)
                    | Some r \<Rightarrow>
                       (let r1 = drop (length keyTemp) r
                        in if \<not> strncmp_eq r1 ('':'' @ QUOTE) 2 then (-1, None)
                           else let (val, keyEnd) = strtof E (drop 2 r1)
                                in (if take 1 keyEnd \<noteq> QUOTE then -1 else 0, Some val)))
     | _ \<Rightarrow> (-1, None))"

definition STRPREFIX :: "string \<Rightarrow> string \<Rightarrow> bool" where
  "STRPREFIX a b = strncmp_eq a b (length b)"

definition STREQ :: "string \<Rightarrow> string \<Rightarrow> bool" where
  "STREQ a b = (a = b)"

definition MutexInit :: "'w ext \<Rightarrow> 'w \<Rightarrow> int \<times> 'w" where
  "MutexInit E w = (let (ret, w1) = pthread_mutex_init E w in (if ret \<noteq> 0 then -1 else 0, w1))"

definition MutexDestroy :: "'w ext \<Rightarrow> 'w \<Rightarrow> 'w" where
  "MutexDestroy E w = pthread_mutex_destroy E w"

section \<open>Retrying\<close>

text \<open>The world after \<open>k\<close> writes that all fail; \<open>None\<close> if one of them succeeds.\<close>

fun fail_run :: "'w ext \<Rightarrow> int \<Rightarrow> string \<Rightarrow> nat \<Rightarrow> 'w \<Rightarrow> 'w option" where
  "fail_run E fd t 0 w = Some w"
| "fail_run E fd t (Suc k) w =
     (let (r, w1) = write_fd E fd t w in if r < 0 then fail_run E fd t k w1 else None)"

text \<open>A write ends after \<open>k\<close> failures with its first success, or all of \<open>n\<close> writes fail.\<close>

lemma write_retry_cases:
  assumes "in_s32 (int n)"
  shows "(\<exists>k w1 r w2. k < n \<and> fail_run E fd t k w = Some w1 \<and> write_fd E fd t w1 = (r, w2) \<and> 0 \<le> r \<and>
            write_retry E fd t (int n) w = Some (int (n - k), w2)) \<or>
         (\<exists>w1. fail_run E fd t n w = Some w1 \<and> write_retry E fd t (int n) w = Some (0, w1))"
  using assms
proof (induction n arbitrary: w)
  case 0
  show ?case by (simp add: write_retry.simps)
next
  case (Suc n)
  obtain r w1 where w1: "write_fd E fd t w = (r, w1)" by fastforce
  show ?case
  proof (cases "r < 0")
    case True
    have "in_s32 (int n)" using Suc.prems by (simp add: cint)
    then have step: "write_retry E fd t (int (Suc n)) w = write_retry E fd t (int n) w1"
      and run: "fail_run E fd t (Suc k) w = fail_run E fd t k w1" for k
      using w1 True by (simp_all add: write_retry.simps [of E fd t "1 + int n"])
    from Suc.IH [OF \<open>in_s32 (int n)\<close>, of w1] show ?thesis
    proof (elim disjE exE conjE)
      fix k w2 r' w3
      assume "k < n" "fail_run E fd t k w1 = Some w2" "write_fd E fd t w2 = (r', w3)" "0 \<le> r'"
        "write_retry E fd t (int n) w1 = Some (int (n - k), w3)"
      then show ?thesis unfolding step
        by (intro disjI1 exI [of _ "Suc k"] exI [of _ w2] exI [of _ r'] exI [of _ w3])
          (simp add: run del: fail_run.simps)
    next
      fix w2
      assume "fail_run E fd t n w1 = Some w2" "write_retry E fd t (int n) w1 = Some (0, w2)"
      then show ?thesis unfolding step run by simp
    qed
  next
    case False
    with w1 have "write_retry E fd t (int (Suc n)) w = Some (int (Suc n - 0), w1)"
      by (simp add: write_retry.simps)
    with w1 False show ?thesis
      by (intro disjI1 exI [of _ 0] exI [of _ w] exI [of _ r] exI [of _ w1]) simp
  qed
qed

text \<open>What \<open>write\<close> returns: -1, or the number of bytes, at most the length of the text.\<close>

definition write_ok :: "'w ext \<Rightarrow> bool" where
  "write_ok E \<longleftrightarrow> (\<forall>fd t w. - 1 \<le> fst (write_fd E fd t w) \<and> fst (write_fd E fd t w) \<le> int (length t))"

text \<open>
  C33: Writing with retries. On a file that can be opened, \<open>WriteStringToFile\<close> returns for every
  retry count that is not negative: it stops at the first write that succeeds, after at most
  \<open>retryCount\<close> failures, and returns the number of bytes if that was the first write and 0
  otherwise; or all \<open>retryCount + 1\<close> writes fail and it returns -1. The file is closed in both cases.
\<close>

theorem WriteStringToFile_attempts:
  assumes "write_ok E" and "0 \<le> n" and "in_s32 n" and "in_s32 (int (length t))"
    and "realpath E p w = (Some c, w1)" and "open_wronly E c w1 = (fd, w2)" and "0 \<le> fd"
  shows "(\<exists>k w3 r w4. int k \<le> n \<and> fail_run E fd t k w2 = Some w3 \<and> write_fd E fd t w3 = (r, w4) \<and> 0 \<le> r \<and>
      WriteStringToFile E (Some p) (Some t) n w = Some (if k = 0 then r else 0, close_fd E fd w4)) \<or>
    (\<exists>w3. fail_run E fd t (Suc (nat n)) w2 = Some w3 \<and>
      WriteStringToFile E (Some p) (Some t) n w = Some (-1, close_fd E fd w3))"
proof -
  obtain r w3 where w3: "write_fd E fd t w2 = (r, w3)" by fastforce
  with assms(1) have r: "- 1 \<le> r" "r \<le> int (length t)" by (metis fst_conv write_ok_def)+
  with assms(4) have wrap: "wrap32 r = r" by (intro wrap32_id) (simp add: in_s32_def)
  have open_eq: "WriteStringToFile E (Some p) (Some t) n w =
      (if 0 \<le> r then Some (r, close_fd E fd w3)
       else do { (m, w4) \<leftarrow> write_retry E fd t n w3; Some (if m = 0 then r else 0, close_fd E fd w4) })"
    using assms(5-7) w3 wrap by (simp add: WriteStringToFile_def close_out_def)
  show ?thesis
  proof (cases "0 \<le> r")
    case True
    with w3 show ?thesis unfolding open_eq
      by (intro disjI1 exI [of _ 0] exI [of _ w2] exI [of _ r] exI [of _ w3]) (simp add: assms(2))
  next
    case False
    then have neg: "r = -1" using r by simp
    have run: "fail_run E fd t (Suc k) w2 = fail_run E fd t k w3" for k using w3 False by simp
    have n: "int (nat n) = n" using assms(2) by simp
    have "in_s32 (int (nat n))" using assms(3) n by simp
    from write_retry_cases [OF this, of E fd t w3] show ?thesis
    proof (elim disjE exE conjE)
      fix k w4 r' w5
      assume "k < nat n" "fail_run E fd t k w3 = Some w4" "write_fd E fd t w4 = (r', w5)" "0 \<le> r'"
        "write_retry E fd t (int (nat n)) w3 = Some (int (nat n - k), w5)"
      with n neg show ?thesis unfolding open_eq
        by (intro disjI1 exI [of _ "Suc k"] exI [of _ w4] exI [of _ r'] exI [of _ w5])
          (auto simp: run simp del: fail_run.simps)
    next
      fix w4
      assume "fail_run E fd t (nat n) w3 = Some w4" "write_retry E fd t (int (nat n)) w3 = Some (0, w4)"
      with n neg show ?thesis unfolding open_eq run by simp
    qed
  qed
qed

section \<open>Numbers\<close>

text \<open>
  C34: The text of a number. Formatting a 64-bit number never fails, and what is written is the
  decimal text that reads back as the number; this holds for both signs and for a value of
  \<open>WriteValueToLinuxProc\<close>, which is tried eleven times at most.
\<close>

theorem number_text_roundtrip:
  assumes "sprintf_s_ok E" and "snprintf_s_ok E" and "in_s64 i" and "in_s32 j"
  shows "(\<exists>t. WriteCgroupPathU64 E p u n w = WriteStringToFile E p (Some t) n w \<and> int (digits_val t) = uint u) \<and>
    (\<exists>t. WriteCgroupPathS64 E p i n w = WriteStringToFile E p (Some t) n w \<and> strtol10 t = (i, [], False)) \<and>
    (\<exists>t. WriteValueToLinuxProc E p j w = WriteStringToFile E p (Some t) 10 w \<and> strtol10 t = (j, [], False))"
proof -
  have "unat u < 10 ^ Suc 19" using unsigned_less [where 'a = nat, of u] by simp
  from length_show_nat [OF this] have "length (show_int (uint u)) < 32" by (simp add: show_int_def)
  with sprintf_s_fits [OF assms(1)] have
    1: "WriteCgroupPathU64 E p u n w = WriteStringToFile E p (Some (show_int (uint u))) n w"
    by (simp add: WriteCgroupPathU64_def)
  have "nat i < 10 ^ Suc 18" "nat (- i) < 10 ^ Suc 18" using assms(3) unfolding in_s64_def by auto
  from this [THEN length_show_nat] have "length (show_int i) < 32" by (simp add: show_int_def)
  with sprintf_s_fits [OF assms(1)] have
    2: "WriteCgroupPathS64 E p i n w = WriteStringToFile E p (Some (show_int i)) n w"
    by (simp add: WriteCgroupPathS64_def)
  have "length (show_int j) \<le> 255" using length_show_int [OF assms(4)] by simp
  with snprintf_s_fits [OF assms(2)] have
    3: "WriteValueToLinuxProc E p j w = WriteStringToFile E p (Some (show_int j)) 10 w"
    by (simp add: WriteValueToLinuxProc_def)
  have "int (digits_val (show_int (uint u))) = uint u" by (simp add: show_int_def)
  moreover have "in_s64 j" using assms(4) by (simp add: cint)
  ultimately show ?thesis using 1 2 3 strtol10_show_int assms(3) by blast
qed

section \<open>The JSON lookup\<close>

text \<open>
  C39: Reading a number from the text. Blanks do not matter. If the first occurrence of the quoted
  key is followed by a colon and a quote, the result is what \<open>strtof\<close> reads there, and the status
  says whether the closing quote follows; a key with a blank in it is never found.
\<close>

theorem GetFloatValueFromJsonString_reads:
  assumes "snprintf_s_ok E" and "length key < length str" and "length str < LINE_MAX_CHAR"
    and "length key + 2 < LINE_MAX_CHAR"
  shows "(strstr (strip_blanks str) (QUOTE @ key @ QUOTE) = Some (QUOTE @ key @ QUOTE @ '':'' @ QUOTE @ r) \<longrightarrow>
      GetFloatValueFromJsonString E (Some str) (Some key) =
        (if take 1 (snd (strtof E r)) = QUOTE then 0 else -1, Some (fst (strtof E r)))) \<and>
    (CHR '' '' \<in> set key \<longrightarrow> GetFloatValueFromJsonString E (Some str) (Some key) = (-1, None))"
proof -
  have fmt: "snprintf_s E LINE_MAX_CHAR (LINE_MAX_CHAR - 1) (QUOTE @ key @ QUOTE) =
      (int (length (QUOTE @ key @ QUOTE)), QUOTE @ key @ QUOTE)"
    by (rule snprintf_s_fits [OF assms(1)]) (use assms(4) in \<open>simp_all add: LINE_MAX_CHAR_def QUOTE_def\<close>)
  have blank: "strstr (strip_blanks str) (QUOTE @ key @ QUOTE) = None" if "CHR '' '' \<in> set key"
  proof (rule ccontr)
    assume "strstr (strip_blanks str) (QUOTE @ key @ QUOTE) \<noteq> None"
    then obtain p q where "strip_blanks str = p @ (QUOTE @ key @ QUOTE) @ q" using strstr_iff by blast
    with that have "CHR '' '' \<in> set (strip_blanks str)" by simp
    then show False by (simp add: strip_blanks_def)
  qed
  show ?thesis
  proof (intro conjI impI)
    assume "strstr (strip_blanks str) (QUOTE @ key @ QUOTE) = Some (QUOTE @ key @ QUOTE @ '':'' @ QUOTE @ r)"
    with fmt assms(2,3) show "GetFloatValueFromJsonString E (Some str) (Some key) =
        (if take 1 (snd (strtof E r)) = QUOTE then 0 else -1, Some (fst (strtof E r)))"
      by (simp add: GetFloatValueFromJsonString_def QUOTE_def strncmp_eq_def split: prod.splits)
  next
    assume "CHR '' '' \<in> set key"
    with blank fmt assms(2,3) show "GetFloatValueFromJsonString E (Some str) (Some key) = (-1, None)"
      by (simp add: GetFloatValueFromJsonString_def)
  qed
qed

section \<open>Witnesses\<close>

text \<open>A file that refuses the first write; the world's number is the attempts so far.\<close>

definition stubborn_ext :: "ref_world ext" where
  "stubborn_ext = ref_ext\<lparr>open_wronly := (\<lambda>_ w. (7, w)),
     write_fd := (\<lambda>_ t w. (if fst w = 0 then -1 else int (length t), (fst w + 1, snd w)))\<rparr>"

theorem WriteStringToFile_attempts_witness:
  "\<exists>w. WriteStringToFile stubborn_ext (Some ''/sys/limit'') (Some ''42'') 3 (0, []) = Some (0, w)"
proof -
  have w: "write_ok stubborn_ext" by (simp add: write_ok_def stubborn_ext_def)
  have f: "fail_run stubborn_ext 7 ''42'' 0 (0, []) = Some (0, [])"
    "fail_run stubborn_ext 7 ''42'' (Suc 0) (0, []) = Some (1, [])"
    "fail_run stubborn_ext 7 ''42'' (Suc (Suc k)) (0, []) = None" for k
    by (simp_all add: stubborn_ext_def)
  have "realpath stubborn_ext ''/sys/limit'' (0, []) = (Some ''/sys/limit'', (0, []))"
    "open_wronly stubborn_ext ''/sys/limit'' (0, []) = (7, (0, []))"
    by (simp_all add: stubborn_ext_def ref_ext_def)
  from WriteStringToFile_attempts [OF w, of 3 "''42''", OF _ _ _ this] show ?thesis
    by (auto simp: in_s32_def numeral_eq_Suc f simp del: fail_run.simps split: if_splits)
      (auto simp: stubborn_ext_def)
qed

theorem number_text_roundtrip_witness:
  "\<exists>t. WriteCgroupPathS64 ref_ext (Some ''/sys/limit'') (- 5) 3 (0, []) =
     WriteStringToFile ref_ext (Some ''/sys/limit'') (Some t) 3 (0, []) \<and> strtol10 t = (- 5, [], False)"
  using number_text_roundtrip [of ref_ext "- 5" 0] securec_okD [OF ref_ext_securec] by (auto simp: cint)

theorem GetFloatValueFromJsonString_reads_witness:
  "GetFloatValueFromJsonString
     (ref_ext\<lparr>strtof := \<lambda>s. (0x40200000, drop 3 s)\<rparr>)
     (Some (QUOTE @ ''used'' @ QUOTE @ '' : '' @ QUOTE @ ''2.5'' @ QUOTE)) (Some ''used'') = (0, Some 0x40200000)"
proof -
  have "snprintf_s_ok (ref_ext\<lparr>strtof := \<lambda>s. (0x40200000, drop 3 s)\<rparr>)"
    by (simp add: snprintf_s_ok_def ref_ext_def)
  from GetFloatValueFromJsonString_reads [OF this, of "''used''"
      "QUOTE @ ''used'' @ QUOTE @ '' : '' @ QUOTE @ ''2.5'' @ QUOTE" "''2.5'' @ QUOTE"]
  show ?thesis by (simp add: QUOTE_def LINE_MAX_CHAR_def strip_blanks_def)
qed

end
