(* ===== verification/Spec2Isabelle.thy ===== *)
theory Spec2Isabelle
  imports Exit_Race Guest Util_File
begin

text \<open>
  \<^bold>\<open>memlinkd\<close> (openEuler memlink, src/src) is a daemon on a virtualisation host. It watches the memory
  use of the running VMs through libvirt and reclaims idle guest memory with the virtio balloon: a VM
  whose guest has used little memory for long enough is asked to shrink to a target, and when it has
  done so, or does not move any more, it gets its memory back in two steps. This development models
  the C code of the daemon and proves what makes it correct.

  \<^bold>\<open>The program.\<close> Three threads share the global variables of all source files.
  \<^item> The main thread (main.c) becomes a daemon with a locked pid file, installs the signal handlers,
    reads the configuration (memlink_driver.c), starts the other threads (memlink_core.c), then waits
    for a signal and refreshes the VM records after a reconnection. On the way out it gives the
    ballooned VMs their memory back and frees the list.
  \<^item> The event thread (\<open>DomainEventProcessThread\<close>, libvirt_helper.c) keeps a connection to libvirtd,
    rebuilds the VM list after every (re)connection, and adds and removes VMs on lifecycle events.
  \<^item> The balloon thread (\<open>BalloonVmMemThread\<close>, memlink_core.c) reads the statistics of all VMs every
    two seconds and runs the balloon state machine of each.
  The VM list with its mutex is in memlink_driver.c; util.c has the wrappers of time, semaphores,
  threads and files and the inspection of a VM's qemu process; log.c has the log.

  \<^bold>\<open>The model.\<close> Structs are records with the source's names, the VM records live on a heap of
  addresses so that dangling links are expressible, and one record \<open>mstate\<close> holds the globals. Every
  C function is an Isabelle function of its name; a loop of a function that is modelled on its own
  has a name of its own. \<open>int\<close> and \<open>int64_t\<close> values are integers with every overflow a fault (the
  build passes \<^verbatim>\<open>-ftrapv\<close>) and every conversion written out; \<open>uint64_t\<close> values are 64-bit words.
  \<open>None\<close> is a fault: a trap, a stray pointer, an array overrun, or a deadlock of a thread with its own
  mutex. libvirt, the operating system and the securec library are the fields of one record \<open>ext\<close>, a
  parameter of every operation, over an abstract world; the documented behaviour that a theorem
  needs is a named hypothesis (\<open>calloc_ok\<close>, \<open>clock_ok\<close>, \<open>listing_ok\<close>, \<open>sizes_documented\<close>, ...), and concrete
  environments show that the hypotheses can hold. Loops that may run for ever (waiting for libvirtd,
  for the semaphore, for events) are \<open>partial_function\<close>s with a separate theorem that they return; no
  fuel is used anywhere.

  \<^bold>\<open>Theories.\<close>
  \<^item> Prelude, CString, Environment: machine integers, faults, the C library's strings and numbers, the
    external functions.
  \<^item> Vm, Libvirt_Vm (memlink_driver.h, libvirt_helper.c): the records, the global state, the calls to
    libvirt for one VM.
  \<^item> Vmlist (memlink_driver.c): the list, references, adding, deleting, refreshing. The list invariant;
    the contracts \<open>vmlist_op\<close> (an operation on the list) and \<open>vm_step\<close> (the body of a loop over the
    records), interpreted on every operation; refinement of the registry of (id, name) pairs.
  \<^item> Libvirt_Stats (libvirt_helper.c): the statistics pass, equal to a reference computation per VM.
  \<^item> Float32, Balloon, Balloon_Target, Balloon_Phase (memlink_core.c): single precision rounding (contract
    \<open>rounding\<close>), the balloon operations, the target and its bounds, the pressure threshold, the
    four-phase state machine that one turn refines, when an inflation starts and that it ends.
  \<^item> Core (memlink_core.c): whole passes over the list and the requests they send, the start of the
    threads, the way out.
  \<^item> Libvirt_Events (libvirt_helper.c): connecting, collecting, events, a turn of the event thread.
  \<^item> Config (memlink_driver.c): reading and rewriting the configuration file, the ranges of the settings.
  \<^item> Util_Proc, Util_Sync, Util_File (util.c), Log (log.c): files of a qemu process and its command line,
    time and semaphores and threads, writing control files, the JSON lookup, the log.
  \<^item> Daemon (main.c and the loops of the threads): program counters and steps of the three threads,
    their interleaving \<open>daemon_step\<close> with signals, the reachable states \<open>daemon_reach\<close>.
  \<^item> Daemon_Seq: a thread that runs alone executes the sequential bodies; the pid file.
  \<^item> Sections: every critical section keeps the shared state safe (contract \<open>list_section\<close>).
  \<^item> Daemon_Inv, Daemon_Props, Daemon_Runs: the invariant of the interleaving (contract
    \<open>daemon_invariant\<close>), absence of faults, stopping, and concrete executions.
  \<^item> Guest: the balloon thread in a closed loop with a guest that takes the sizes it is asked for: the
    memory comes back after two passes; and what happens when the guest settles just short of it.
  \<^item> Exit_Race: an execution in which a pass in flight shrinks a VM behind the way out.
  \<^item> This theory: a property across all of them.

  \<^bold>\<open>Granularity and bounds.\<close> A step of the interleaving is a critical section of the list mutex or the
  code between two of them. The mutex makes the sections atomic for each other; the flags
  \<open>g_stopMemlinkd\<close> and \<open>g_libvirtChange\<close> are read and written once per step. The connection handle is
  written by the event thread without a lock: closing it and resetting it are two steps, which
  suffices to exhibit the race (\<open>closed_connection_in_use\<close>), but other interleavings within a
  library call on a closed handle are libvirt's behaviour and not modelled. Memory sizes are assumed below
  \<open>2 ^ 49\<close> KiB where overflow is excluded, and the list is assumed to have fewer than
  \<open>2 ^ 31 - 1\<close> entries.

  \<^bold>\<open>Not modelled.\<close> The messages to the log inside the other functions (log.c and
  \<open>GetLastErrMsg\<close>, which supplies a part of their text, are modelled); the memory barriers (the interleaving is
  sequentially consistent); the structures and enumerations for host memory that no function
  uses; the test configuration of the build (\<^verbatim>\<open>CUNIT\<close>), the shell test, packaging and documentation.
\<close>

section \<open>Requests of the running daemon\<close>

text \<open>
  C5: Every request is bounded. In every reachable state in which the balloon thread is about to run
  its pass, and in which every VM has at least 2 MiB, the pass returns and asks libvirt for at most
  one size per VM, in list order: never more than the VM's memory, never less than 1 GiB (or the
  memory, if smaller) less 2 MiB. The settings are those the configuration file has left, the
  records those that events, statistics and earlier passes have left.
\<close>

theorem reachable_requests_bounded:
  assumes "env_live E" and "daemon_reach E d" and "observes E seen"
    and "\<forall>v \<in> set (vms (mem d)). 2048 \<le> memory v"
  shows "\<exists>s' rs. balloon_next E BlSection (mem d) = Some (BlSleep, s') \<and>
    seen (world s') = seen (world (mem d)) @ concat rs \<and>
    list_all2 (\<lambda>v r. r = [] \<or> (\<exists>t. r = [(vdom v, t)] \<and> uint t \<le> memory v \<and>
                 min (memory v) 1048576 - 2048 \<le> uint t)) (vms (mem d)) rs"
proof -
  from daemon.reach_holds [OF assms(2) env_liveD(1) [OF assms(1)]] have
    safe: "list_safe (mem d)" and cfg: "cfg_ok (cfg (mem d))" by (simp_all add: daemon_inv_def event_inv_def)
  note s = list_safeD [OF safe]
  have "\<forall>v \<in> set (vms (mem d)). vm_shared v" using heap_vms [OF s(1), of vm_shared] s(4) by simp
  then have "\<forall>v \<in> set (vms (mem d)). vm_sane v \<and> 2048 \<le> memory v"
    using assms(4) by (auto simp: vm_shared_def intro: vm_sized_sane)
  from balloon_section_requests [OF s(1,2) cfg_ok_percents [OF cfg] assms(3) this] show ?thesis by auto
qed

theorem reachable_requests_bounded_witness:
  "\<exists>d s'. daemon_reach vm_ext d \<and> balloon_at d = BlSection \<and>
     balloon_next vm_ext BlSection (mem d) = Some (BlSleep, s')"
proof -
  obtain d v where d: "daemon_reach vm_ext d" "balloon_at d = BlSection" "vms (mem d) = [v]" "memory v = 4194304"
    by (rule vm_state)
  have "observes vm_ext snd" by (simp add: observes_def vm_ext_def list_ext_def demo_ext_def ref_ext_def)
  from reachable_requests_bounded [OF vm_env_live d(1) this] d show ?thesis by auto
qed

end
